theory Spec2Isabelle
  imports Complex_Main "HOL-Library.Sublist"
begin

section \<open>The job queue and its worker\<close>

text \<open>
  \<^verbatim>\<open>job_queue = Queue()\<close> is an unbounded FIFO of callables. One thread, started once when
  the module is loaded, runs \<^verbatim>\<open>worker\<close>:
  \<^verbatim>\<open>
  def worker():
      while True:
          task = job_queue.get()
          try:
              task()
          except Exception as e:
              print("Error in job:", e)
          job_queue.task_done()
  \<close>
  A callable is a value of type \<open>'j\<close>; calling it is the parameter \<open>invoke\<close>, which maps the
  world the payload acts on to an outcome and a new world. The world is everything outside
  the queue: a payload does not reach into \<^verbatim>\<open>job_queue\<close> itself (the closures the bot
  enqueues do not name it); what a payload may well do, enqueue more work, is an
  \<open>Enqueue\<close> action below. A payload returns, raises an \<^verbatim>\<open>Exception\<close> \<open>e\<close>, or raises
  something that is only a \<^verbatim>\<open>BaseException\<close> (\<^verbatim>\<open>SystemExit\<close>, \<^verbatim>\<open>KeyboardInterrupt\<close>), which
  \<^verbatim>\<open>except Exception\<close> lets through.

  The handler's \<^verbatim>\<open>print("Error in job:", e)\<close> stands unguarded inside the \<^verbatim>\<open>except\<close>
  block. It raises when \<^verbatim>\<open>str(e)\<close> raises or when standard output does not take the text
  (it is closed, or cannot encode a character of the message). The parameter \<open>prints\<close>
  says for an exception whether that \<^verbatim>\<open>print\<close> returns; when it does not, the new exception
  leaves \<^verbatim>\<open>worker\<close> and the thread ends, as it does for a \<^verbatim>\<open>BaseException\<close>.
\<close>

datatype outcome = Returned | RaisedException string | RaisedBaseException string

text \<open>Where the worker thread is: blocked in \<^verbatim>\<open>job_queue.get()\<close>, inside \<^verbatim>\<open>task()\<close>, or ended.\<close>

datatype 'j worker_pc = Waiting | Invoking 'j | Dead

datatype 'j event =
  Started 'j | Completed 'j | Failed 'j string | ReportFailed 'j string | Escaped 'j string

text \<open>\<open>stdout\<close> holds the lines printed in full; \<open>unfinished_tasks\<close> is the counter of
  \<^verbatim>\<open>Queue\<close> that \<^verbatim>\<open>put\<close> raises and \<^verbatim>\<open>task_done\<close> lowers.\<close>

record ('j, 'w) system =
  job_queue :: "'j list"
  worker_at :: "'j worker_pc"
  world :: "'w"
  trace :: "'j event list"
  stdout :: "string list"
  unfinished_tasks :: nat

text \<open>
  The producers and the worker are interleaved by a schedule of atomic actions:
  \<open>Enqueue j\<close> is a call \<^verbatim>\<open>enqueue(j)\<close> by any handler, \<open>Get\<close> is the worker's
  \<^verbatim>\<open>job_queue.get()\<close> (it does nothing while the queue is empty: the call blocks), and
  \<open>Finish\<close> is the rest of the loop body, from \<^verbatim>\<open>task()\<close> to \<^verbatim>\<open>job_queue.task_done()\<close>.
  An action the worker cannot take where it stands leaves the state as it is.
\<close>

datatype 'j action = Enqueue 'j | Get | Finish

definition enqueue :: "'j \<Rightarrow> ('j, 'w) system \<Rightarrow> ('j, 'w) system" where
  "enqueue task_callable s =
     s\<lparr>job_queue := job_queue s @ [task_callable],
       unfinished_tasks := Suc (unfinished_tasks s)\<rparr>"

definition worker_get :: "('j, 'w) system \<Rightarrow> ('j, 'w) system" where
  "worker_get s =
     (case worker_at s of
        Waiting \<Rightarrow>
          (case job_queue s of
             [] \<Rightarrow> s
           | task # rest \<Rightarrow>
               s\<lparr>job_queue := rest, worker_at := Invoking task,
                 trace := trace s @ [Started task]\<rparr>)
      | _ \<Rightarrow> s)"

text \<open>\<^verbatim>\<open>job_queue.task_done()\<close> raises \<^verbatim>\<open>ValueError\<close> when no task is unfinished; nothing
  catches it, so the thread ends. Otherwise the loop is back at \<^verbatim>\<open>job_queue.get()\<close>.\<close>

definition task_done :: "('j, 'w) system \<Rightarrow> ('j, 'w) system" where
  "task_done s =
     (if unfinished_tasks s = 0 then s\<lparr>worker_at := Dead\<rparr>
      else s\<lparr>unfinished_tasks := unfinished_tasks s - 1, worker_at := Waiting\<rparr>)"

definition worker_finish ::
  "('j \<Rightarrow> 'w \<Rightarrow> outcome \<times> 'w) \<Rightarrow> (string \<Rightarrow> bool) \<Rightarrow> ('j, 'w) system \<Rightarrow> ('j, 'w) system" where
  "worker_finish invoke prints s =
     (case worker_at s of
        Invoking task \<Rightarrow>
          (case invoke task (world s) of
             (Returned, w) \<Rightarrow>
               task_done (s\<lparr>world := w, trace := trace s @ [Completed task]\<rparr>)
           | (RaisedException e, w) \<Rightarrow>
               if prints e
               then task_done (s\<lparr>world := w, trace := trace s @ [Failed task e],
                                 stdout := stdout s @ [''Error in job: '' @ e]\<rparr>)
               else s\<lparr>world := w, worker_at := Dead,
                      trace := trace s @ [ReportFailed task e]\<rparr>
           | (RaisedBaseException e, w) \<Rightarrow>
               s\<lparr>world := w, worker_at := Dead,
                 trace := trace s @ [Escaped task e]\<rparr>)
      | _ \<Rightarrow> s)"

fun perform ::
  "('j \<Rightarrow> 'w \<Rightarrow> outcome \<times> 'w) \<Rightarrow> (string \<Rightarrow> bool) \<Rightarrow> 'j action \<Rightarrow>
   ('j, 'w) system \<Rightarrow> ('j, 'w) system" where
  "perform invoke prints (Enqueue task) s = enqueue task s"
| "perform invoke prints Get s = worker_get s"
| "perform invoke prints Finish s = worker_finish invoke prints s"

fun run ::
  "('j \<Rightarrow> 'w \<Rightarrow> outcome \<times> 'w) \<Rightarrow> (string \<Rightarrow> bool) \<Rightarrow> 'j action list \<Rightarrow>
   ('j, 'w) system \<Rightarrow> ('j, 'w) system" where
  "run invoke prints [] s = s"
| "run invoke prints (a # sched) s = run invoke prints sched (perform invoke prints a s)"

text \<open>The state when the module has been loaded: an empty queue, the worker at its first \<^verbatim>\<open>get()\<close>.\<close>

definition startup :: "'w \<Rightarrow> ('j, 'w) system" where
  "startup w =
     \<lparr>job_queue = [], worker_at = Waiting, world = w, trace = [], stdout = [],
      unfinished_tasks = 0\<rparr>"

text \<open>What a schedule and a trace say: the jobs submitted, the jobs whose payload was entered,
  and how many payloads are inside \<^verbatim>\<open>task()\<close> after a trace.\<close>

fun submitted :: "'j action list \<Rightarrow> 'j list" where
  "submitted [] = []"
| "submitted (Enqueue task # sched) = task # submitted sched"
| "submitted (a # sched) = submitted sched"

fun started :: "'j event list \<Rightarrow> 'j list" where
  "started [] = []"
| "started (Started task # evs) = task # started evs"
| "started (ev # evs) = started evs"

fun executing :: "'j event list \<Rightarrow> int" where
  "executing [] = 0"
| "executing (Started task # evs) = executing evs + 1"
| "executing (ev # evs) = executing evs - 1"

text \<open>The jobs whose payload has been run to its end (it returned or raised), in that
  order, and the job whose payload the worker is inside, if any.\<close>

fun finished :: "'j event list \<Rightarrow> 'j list" where
  "finished [] = []"
| "finished (Started task # evs) = finished evs"
| "finished (Completed task # evs) = task # finished evs"
| "finished (Failed task e # evs) = task # finished evs"
| "finished (ReportFailed task e # evs) = task # finished evs"
| "finished (Escaped task e # evs) = task # finished evs"

definition running :: "('j, 'w) system \<Rightarrow> 'j list" where
  "running s = (case worker_at s of Invoking task \<Rightarrow> [task] | _ \<Rightarrow> [])"

text \<open>The worker alone, serving the queue: one \<open>Get\<close> and one \<open>Finish\<close> per job.\<close>

definition serve :: "nat \<Rightarrow> 'j action list" where
  "serve n = concat (replicate n [Get, Finish])"

text \<open>An outcome after which the worker thread has ended: something that is no
  \<^verbatim>\<open>Exception\<close>, or an \<^verbatim>\<open>Exception\<close> whose report does not print.\<close>

definition ends_worker :: "(string \<Rightarrow> bool) \<Rightarrow> outcome \<Rightarrow> bool" where
  "ends_worker prints r =
     (case r of Returned \<Rightarrow> False | RaisedException e \<Rightarrow> \<not> prints e | RaisedBaseException e \<Rightarrow> True)"

definition busy :: "('j, 'w) system \<Rightarrow> int" where
  "busy s = (case worker_at s of Invoking task \<Rightarrow> 1 | _ \<Rightarrow> 0)"

section \<open>Strings and paths\<close>

text \<open>
  A Python \<^verbatim>\<open>str\<close> is modelled by its UTF-8 bytes. The source searches such strings only
  for ASCII text, and a byte of a multi-byte UTF-8 sequence is never an ASCII byte, so the
  searches agree. \<^verbatim>\<open>str.lower()\<close> is modelled on the letters A to Z; the source only asks
  whether the lowered name ends with \<^verbatim>\<open>.pdf\<close>.
\<close>

definition lower_char :: "char \<Rightarrow> char" where
  "lower_char c =
     (let n = (of_char c :: nat) in if 65 \<le> n \<and> n \<le> 90 then char_of (n + 32) else c)"

definition lower :: "string \<Rightarrow> string" where
  "lower s = map lower_char s"

definition endswith :: "string \<Rightarrow> string \<Rightarrow> bool" where
  "endswith s sfx = (length sfx \<le> length s \<and> drop (length s - length sfx) s = sfx)"

definition startswith :: "string \<Rightarrow> string \<Rightarrow> bool" where
  "startswith s pfx = (take (length pfx) s = pfx)"

text \<open>\<^verbatim>\<open>s.replace(old, new)\<close>: every occurrence of \<open>old\<close>, left to right, without overlap;
  an empty \<open>old\<close> matches before every character and at the end.\<close>

function replace :: "string \<Rightarrow> string \<Rightarrow> string \<Rightarrow> string" where
  "replace s old new =
     (if old = [] then concat (map (\<lambda>c. new @ [c]) s) @ new
      else if s = [] then []
      else if startswith s old then new @ replace (drop (length old) s) old new
      else hd s # replace (tl s) old new)"
  by pat_completeness auto
termination
  by (relation "measure (\<lambda>(s, old, new). length s)") auto

declare replace.simps [simp del]

text \<open>\<^verbatim>\<open>str(n)\<close> and \<^verbatim>\<open>f"{n}"\<close> for an integer: decimal digits, a minus sign when negative.\<close>

fun str_nat :: "nat \<Rightarrow> string" where
  "str_nat n = (if n < 10 then [char_of (48 + n)] else str_nat (n div 10) @ [char_of (48 + n mod 10)])"

declare str_nat.simps [simp del]

definition str_int :: "int \<Rightarrow> string" where
  "str_int i = (if i < 0 then CHR ''-'' # str_nat (nat (- i)) else str_nat (nat i))"

text \<open>\<^verbatim>\<open>os.path.join(a, b)\<close>, \<^verbatim>\<open>os.path.basename(p)\<close> and \<^verbatim>\<open>os.path.dirname(p)\<close> of
  \<^verbatim>\<open>posixpath\<close>.\<close>

definition os_path_join :: "string \<Rightarrow> string \<Rightarrow> string" where
  "os_path_join a b =
     (if startswith b ''/'' then b
      else if a = [] \<or> endswith a ''/'' then a @ b
      else a @ ''/'' @ b)"

definition os_path_basename :: "string \<Rightarrow> string" where
  "os_path_basename p = rev (takeWhile (\<lambda>c. c \<noteq> CHR ''/'') (rev p))"

definition os_path_dirname :: "string \<Rightarrow> string" where
  "os_path_dirname p =
     (let head = rev (dropWhile (\<lambda>c. c \<noteq> CHR ''/'') (rev p))
      in if head \<noteq> [] \<and> \<not> list_all (\<lambda>c. c = CHR ''/'') head
         then rev (dropWhile (\<lambda>c. c = CHR ''/'') (rev head))
         else head)"

definition WORK :: string where
  "WORK = ''pdf_files''"

section \<open>Files and the PDF library\<close>

text \<open>
  The files are a map from paths to contents; a file either parses as a PDF with a list of
  pages or does not. A page is opaque. \<^verbatim>\<open>PdfReader(path)\<close> reads the whole file when it is
  built and raises when the file is missing or is no PDF.
\<close>

type_synonym page = nat

datatype content = Pdf "page list" | Blob

type_synonym fs = "string \<rightharpoonup> content"

datatype error =
  FileNotFoundError string | IsADirectoryError string | PdfReadError string | ValueError string

definition PdfReader :: "fs \<Rightarrow> string \<Rightarrow> error + page list" where
  "PdfReader fs pdf_path =
     (case fs pdf_path of
        None \<Rightarrow> Inl (FileNotFoundError pdf_path)
      | Some Blob \<Rightarrow> Inl (PdfReadError pdf_path)
      | Some (Pdf pages) \<Rightarrow> Inr pages)"

definition os_path_exists :: "fs \<Rightarrow> string \<Rightarrow> bool" where
  "os_path_exists fs p = (fs p \<noteq> None)"

definition get_page_count :: "fs \<Rightarrow> string \<Rightarrow> nat option" where
  "get_page_count fs pdf_path =
     (case PdfReader fs pdf_path of Inr pages \<Rightarrow> Some (length pages) | Inl e \<Rightarrow> None)"

text \<open>
  \<^verbatim>\<open>open(path, "wb")\<close> creates or empties the file, and raises when it cannot: the path is
  a folder, or the folder the path lies in does not exist. \<open>isdir\<close> says which paths name
  an existing folder (\<^verbatim>\<open>os.path.isdir\<close>); a path without a folder part lies in the current
  folder. \<open>open_wb\<close> is the error raised, if any. None of the library functions below
  creates a folder.
\<close>

definition open_wb :: "(string \<Rightarrow> bool) \<Rightarrow> string \<Rightarrow> error option" where
  "open_wb isdir p =
     (if isdir p then Some (IsADirectoryError p)
      else if p = [] \<or> (os_path_dirname p \<noteq> [] \<and> \<not> isdir (os_path_dirname p))
      then Some (FileNotFoundError p)
      else None)"

text \<open>
  \<^verbatim>\<open>
  def split_pdf(input_pdf, out_folder):
      reader = PdfReader(input_pdf)
      out_paths = []
      for i, page in enumerate(reader.pages, start=1):
          writer = PdfWriter()
          writer.add_page(page)
          out_path = os.path.join(out_folder, f"page_{i}.pdf")
          with open(out_path, "wb") as f:
              writer.write(f)
          out_paths.append(out_path)
      return out_paths
  \<close>
  The result is the files as the call leaves them, with the list of paths or the error
  that ended it: the pages written before an error stay written.
\<close>

definition page_path :: "string \<Rightarrow> nat \<Rightarrow> string" where
  "page_path out_folder i = os_path_join out_folder (''page_'' @ str_int (int i) @ ''.pdf'')"

fun split_pages ::
  "(string \<Rightarrow> bool) \<Rightarrow> fs \<Rightarrow> string \<Rightarrow> nat \<Rightarrow> page list \<Rightarrow> string list \<Rightarrow>
   fs \<times> (error + string list)" where
  "split_pages isdir fs out_folder i [] out_paths = (fs, Inr out_paths)"
| "split_pages isdir fs out_folder i (page # rest) out_paths =
     (let out_path = page_path out_folder i
      in case open_wb isdir out_path of
           Some e \<Rightarrow> (fs, Inl e)
         | None \<Rightarrow>
             split_pages isdir (fs(out_path \<mapsto> Pdf [page])) out_folder (Suc i) rest
               (out_paths @ [out_path]))"

definition split_pdf ::
  "(string \<Rightarrow> bool) \<Rightarrow> fs \<Rightarrow> string \<Rightarrow> string \<Rightarrow> fs \<times> (error + string list)" where
  "split_pdf isdir fs input_pdf out_folder =
     (case PdfReader fs input_pdf of
        Inl e \<Rightarrow> (fs, Inl e)
      | Inr pages \<Rightarrow> split_pages isdir fs out_folder 1 pages [])"

text \<open>
  \<^verbatim>\<open>
  def merge_pdfs(file_list, output_path):
      writer = PdfWriter()
      for file in file_list:
          reader = PdfReader(file)
          for p in reader.pages:
              writer.add_page(p)
      with open(output_path, "wb") as f:
          writer.write(f)
  \<close>
\<close>

fun merge_pages :: "fs \<Rightarrow> string list \<Rightarrow> page list \<Rightarrow> error + page list" where
  "merge_pages fs [] written = Inr written"
| "merge_pages fs (file # rest) written =
     (case PdfReader fs file of
        Inl e \<Rightarrow> Inl e
      | Inr pages \<Rightarrow> merge_pages fs rest (written @ pages))"

definition merge_pdfs :: "(string \<Rightarrow> bool) \<Rightarrow> fs \<Rightarrow> string list \<Rightarrow> string \<Rightarrow> error + fs" where
  "merge_pdfs isdir fs file_list output_path =
     (case merge_pages fs file_list [] of
        Inl e \<Rightarrow> Inl e
      | Inr pages \<Rightarrow>
          (case open_wb isdir output_path of
             Some e \<Rightarrow> Inl e
           | None \<Rightarrow> Inr (fs(output_path \<mapsto> Pdf pages))))"

text \<open>
  \<^verbatim>\<open>
  def remove_watermark(input_pdf, output_pdf, keywords=None):
      ...
      doc = fitz.open(input_pdf)
      for page in doc:
          try: ... page.add_redact_annot(bbox, fill=(1,1,1)) ...
          except: pass
          try: ... page.delete_image(img[0]) ...
          except: pass
          try: page.apply_redactions()
          except: pass
      doc.save(output_pdf)
      doc.close()
  \<close>
  What the loop does to a page is the parameter \<open>redact\<close>; every step of it is inside a
  \<^verbatim>\<open>try\<close> whose \<^verbatim>\<open>except\<close> passes. \<^verbatim>\<open>fitz.open\<close> raises for a missing file and for one it
  cannot read. \<^verbatim>\<open>doc.save(output_pdf)\<close> is a full save (no \<^verbatim>\<open>incremental=True\<close>), and the
  library refuses a full save onto the path the document was opened from: it compares the
  two names, raises \<^verbatim>\<open>ValueError("save to original must be incremental")\<close> and writes
  nothing.
\<close>

definition fitz_open :: "fs \<Rightarrow> string \<Rightarrow> error + page list" where
  "fitz_open fs input_pdf =
     (case fs input_pdf of
        None \<Rightarrow> Inl (FileNotFoundError input_pdf)
      | Some Blob \<Rightarrow> Inl (PdfReadError input_pdf)
      | Some (Pdf pages) \<Rightarrow> Inr pages)"

definition remove_watermark ::
  "(string \<Rightarrow> bool) \<Rightarrow> (page \<Rightarrow> page) \<Rightarrow> fs \<Rightarrow> string \<Rightarrow> string \<Rightarrow> error + fs" where
  "remove_watermark isdir redact fs input_pdf output_pdf =
     (case fitz_open fs input_pdf of
        Inl e \<Rightarrow> Inl e
      | Inr pages \<Rightarrow>
          if output_pdf = input_pdf
          then Inl (ValueError ''save to original must be incremental'')
          else (case open_wb isdir output_pdf of
                  Some e \<Rightarrow> Inl e
                | None \<Rightarrow> Inr (fs(output_pdf \<mapsto> Pdf (map redact pages)))))"

text \<open>The text of an error, as \<^verbatim>\<open>print\<close> shows it.\<close>

fun error_text :: "error \<Rightarrow> string" where
  "error_text (FileNotFoundError p) = ''No such file or directory: '' @ p"
| "error_text (IsADirectoryError p) = ''Is a directory: '' @ p"
| "error_text (PdfReadError p) = ''Cannot read PDF: '' @ p"
| "error_text (ValueError m) = m"

section \<open>The progress bar\<close>

text \<open>
  \<^verbatim>\<open>
  def progress_bar(message, total_steps=30, action="Processing", speed=0.08):
      bar_length = 20
      for step in range(1, total_steps + 1):
          filled = int(bar_length * step / total_steps)
          bar = "#" * filled + "-" * (bar_length - filled)      # "#" is U+2588 in the source
          percent = int((step / total_steps) * 100)
          text = f"{action}: [{bar}] {percent}%"
          try:
              message.edit_text(text)
          except:
              pass
          time.sleep(speed)
  \<close>
  \<^verbatim>\<open>/\<close> on two Python integers is true division: the result is the IEEE 754 double
  nearest to the exact quotient, ties to the even significand. \<^verbatim>\<open>* 100\<close> then multiplies
  two doubles and rounds again, and \<^verbatim>\<open>int\<close> drops the fraction. The doubles that arise are
  not negative, so a double is a pair \<open>(m, e)\<close> that stands for \<open>m * 2 ^ e\<close>, with
  \<open>m < 2 ^ 53\<close> after rounding (or \<open>m = 2 ^ 53\<close>, the next power of two) and
  \<open>e \<ge> -1074\<close>, the exponent of the subnormal doubles. Inside the loop
  \<open>1 \<le> step \<le> total_steps\<close>, so the quotients are at most 20 and the product at most
  100: the overflow of a double is out of reach and is not modelled.
\<close>

fun bitlen :: "nat \<Rightarrow> nat" where
  "bitlen n = (if n = 0 then 0 else Suc (bitlen (n div 2)))"

declare bitlen.simps [simp del]

text \<open>\<open>floor_log2 p q\<close> is the integer \<open>k\<close> with \<open>2 ^ k \<le> p / q < 2 ^ (k + 1)\<close>, for positive \<open>p\<close> and \<open>q\<close>.\<close>

definition floor_log2 :: "nat \<Rightarrow> nat \<Rightarrow> int" where
  "floor_log2 p q =
     (let d = int (bitlen p) - int (bitlen q)
      in if q * 2 ^ nat d \<le> p * 2 ^ nat (- d) then d else d - 1)"

definition round_half_even :: "nat \<Rightarrow> nat \<Rightarrow> nat" where
  "round_half_even p q =
     (let m = p div q; r = p mod q
      in if 2 * r < q then m
         else if q < 2 * r then m + 1
         else if even m then m else m + 1)"

type_synonym double = "nat \<times> int"

definition to_double :: "nat \<Rightarrow> nat \<Rightarrow> double" where
  "to_double p q =
     (if p = 0 then (0, 0)
      else let e = max (floor_log2 p q - 52) (- 1074)
           in (round_half_even (p * 2 ^ nat (- e)) (q * 2 ^ nat e), e))"

definition true_div :: "nat \<Rightarrow> nat \<Rightarrow> double" where
  "true_div a b = to_double a b"

definition float_mul :: "double \<Rightarrow> double \<Rightarrow> double" where
  "float_mul x y =
     (case x of (m1, e1) \<Rightarrow> case y of (m2, e2) \<Rightarrow>
        to_double (m1 * m2 * 2 ^ nat (e1 + e2)) (2 ^ nat (- (e1 + e2))))"

definition float_of_nat :: "nat \<Rightarrow> double" where
  "float_of_nat n = to_double n 1"

definition trunc :: "double \<Rightarrow> nat" where
  "trunc x = (case x of (m, e) \<Rightarrow> m * 2 ^ nat e div 2 ^ nat (- e))"

definition bar_length :: nat where
  "bar_length = 20"

definition filled :: "nat \<Rightarrow> nat \<Rightarrow> nat" where
  "filled step total_steps = trunc (true_div (bar_length * step) total_steps)"

definition percent :: "nat \<Rightarrow> nat \<Rightarrow> nat" where
  "percent step total_steps = trunc (float_mul (true_div step total_steps) (float_of_nat 100))"

text \<open>The full block U+2588, as its three UTF-8 bytes.\<close>

definition full_block :: string where
  "full_block = [char_of (226 :: nat), char_of (150 :: nat), char_of (136 :: nat)]"

definition progress_text :: "string \<Rightarrow> nat \<Rightarrow> nat \<Rightarrow> string" where
  "progress_text action step total_steps =
     (let bar = concat (replicate (filled step total_steps) full_block)
                @ replicate (bar_length - filled step total_steps) (CHR ''-'')
      in action @ '': ['' @ bar @ ''] '' @ str_int (int (percent step total_steps)) @ ''%'')"

text \<open>
  What the loop does to the outside: a call of \<^verbatim>\<open>message.edit_text\<close> with its text and
  what the call does, and a \<^verbatim>\<open>time.sleep\<close>. \<^verbatim>\<open>progress_bar\<close> is a plain \<^verbatim>\<open>def\<close>, and
  \<^verbatim>\<open>message.edit_text(text)\<close> in it is a plain call, with no \<^verbatim>\<open>await\<close>. What such a call
  does depends on the message it is given:
  \<^item> \<open>Sent\<close>: \<^verbatim>\<open>edit_text\<close> is an ordinary method; it sends the update and returns;
  \<^item> \<open>Raised\<close>: \<^verbatim>\<open>edit_text\<close> is an ordinary method and raises; the bare \<^verbatim>\<open>except\<close>
    catches whatever it raises;
  \<^item> \<open>NotAwaited\<close>: \<^verbatim>\<open>edit_text\<close> is a coroutine function; the call only builds a
    coroutine object, which the loop drops: its body never runs, so no update is sent and
    nothing is raised.

  The message is a parameter: it says, for the step and the text, which of the three
  happens.
\<close>

datatype call_result = Sent | Raised | NotAwaited

datatype 'd progress_event = EditText string call_result | Sleep 'd

fun progress_steps ::
  "(nat \<Rightarrow> string \<Rightarrow> call_result) \<Rightarrow> nat \<Rightarrow> string \<Rightarrow> 'd \<Rightarrow> int list
     \<Rightarrow> 'd progress_event list" where
  "progress_steps message total_steps action speed [] = []"
| "progress_steps message total_steps action speed (step # steps) =
     (let text = progress_text action (nat step) total_steps
      in EditText text (message (nat step) text) # Sleep speed
         # progress_steps message total_steps action speed steps)"

definition progress_bar ::
  "(nat \<Rightarrow> string \<Rightarrow> call_result) \<Rightarrow> int \<Rightarrow> string \<Rightarrow> 'd \<Rightarrow> 'd progress_event list" where
  "progress_bar message total_steps action speed =
     progress_steps message (nat total_steps) action speed [1..total_steps]"

text \<open>
  The texts of the \<^verbatim>\<open>edit_text\<close> call expressions evaluated, the steps run (one \<^verbatim>\<open>sleep\<close>
  ends each), and the status updates issued: the texts of the calls whose body ran, whether
  the update went through or failed.
\<close>

fun edit_calls :: "'d progress_event list \<Rightarrow> string list" where
  "edit_calls [] = []"
| "edit_calls (EditText text r # evs) = text # edit_calls evs"
| "edit_calls (Sleep d # evs) = edit_calls evs"

fun iterations :: "'d progress_event list \<Rightarrow> nat" where
  "iterations [] = 0"
| "iterations (EditText text r # evs) = iterations evs"
| "iterations (Sleep d # evs) = Suc (iterations evs)"

fun status_updates :: "'d progress_event list \<Rightarrow> string list" where
  "status_updates [] = []"
| "status_updates (EditText text r # evs) =
     (if r = NotAwaited then status_updates evs else text # status_updates evs)"
| "status_updates (Sleep d # evs) = status_updates evs"

text \<open>
  The message \<^verbatim>\<open>cmd_clean\<close> passes is the result of
  \<^verbatim>\<open>await update.message.reply_text("Cleaning PDF...")\<close>, a \<^verbatim>\<open>telegram.Message\<close> of the
  asynchronous library the module is written for (its docstring: "Telegram PDF Utility Bot
  - v20+ (async)"; \<^verbatim>\<open>ApplicationBuilder\<close>, \<^verbatim>\<open>ContextTypes\<close>, \<^verbatim>\<open>async def\<close> handlers). Its
  \<^verbatim>\<open>edit_text\<close> is a coroutine function: the same job awaits it two lines below the progress
  bar, \<^verbatim>\<open>await msg.edit_text("... Cleaned! Sending file...")\<close>.
\<close>

definition telegram_message :: "nat \<Rightarrow> string \<Rightarrow> call_result" where
  "telegram_message step text = NotAwaited"

section \<open>The bot: sessions, uploads and commands\<close>

text \<open>
  An update carries the sender and, for an upload, the document. A document's file name is
  optional in the transport; \<open>download\<close> is what \<^verbatim>\<open>get_file\<close> and
  \<^verbatim>\<open>download_to_drive\<close> deliver, \<open>None\<close> when one of them raises.
\<close>

record document =
  file_name :: "string option"
  download :: "content option"

record update =
  from_user_id :: int
  message_document :: "document option"

text \<open>
  A job is the closure a command puts on the queue, given by what it captures:
  the update, the input path and the output path of \<^verbatim>\<open>cmd_clean\<close>'s \<^verbatim>\<open>task\<close>, and
  for a merge the list of inputs and the output path.
\<close>

datatype job = CleanTask update string string | MergeTask update "string list" string

text \<open>
  What the bot sends to a user: the text of a \<^verbatim>\<open>reply_text\<close> call, the text an awaited
  \<^verbatim>\<open>edit_text\<close> puts in place of a message, and the path of the file a
  \<^verbatim>\<open>reply_document\<close> sends. The last reply of an upload is the f-string with the page
  count, the size and the base name; it is kept as the values it formats (without the size).
\<close>

datatype reply = Text string | PdfReceived "nat option" string | Edited string | Document string

text \<open>
  The state the handlers work on: \<^verbatim>\<open>context.user_data\<close>, one dictionary per user, the
  files, the replies sent (to whom, and what), and the module's list \<^verbatim>\<open>MERGE_QUEUE = []\<close>,
  which no function of the module reads or writes.
  It is the world of the queue system above, whose \<open>job_queue\<close> is the module's
  \<^verbatim>\<open>job_queue\<close>.
\<close>

record bot_world =
  user_data :: "int \<Rightarrow> (string \<rightharpoonup> string)"
  files :: fs
  replies :: "(int \<times> reply) list"
  MERGE_QUEUE :: "string list"

type_synonym bot = "(job, bot_world) system"

definition reply_text :: "update \<Rightarrow> reply \<Rightarrow> bot \<Rightarrow> bot" where
  "reply_text upd r s =
     s\<lparr>world := (world s)\<lparr>replies := replies (world s) @ [(from_user_id upd, r)]\<rparr>\<rparr>"

text \<open>\<^verbatim>\<open>context.user_data.get("last_pdf")\<close>\<close>

definition last_pdf :: "update \<Rightarrow> bot \<Rightarrow> string option" where
  "last_pdf upd s = user_data (world s) (from_user_id upd) ''last_pdf''"

text \<open>
  \<^verbatim>\<open>
  def require_pdf(func):
      async def wrapper(update, context, *args, **kwargs):
          pdf = context.user_data.get("last_pdf")
          if not pdf or not os.path.exists(pdf):
              await update.message.reply_text("Please upload a PDF first.")
              return
          return await func(update, context, *args, **kwargs)
      return wrapper
  \<close>
  \<open>no_document\<close> is the test of the \<^verbatim>\<open>if\<close>: \<^verbatim>\<open>not pdf\<close> holds for \<^verbatim>\<open>None\<close> and for the
  empty string.
\<close>

definition no_document :: "update \<Rightarrow> bot \<Rightarrow> bool" where
  "no_document upd s =
     (case last_pdf upd s of
        None \<Rightarrow> True
      | Some pdf \<Rightarrow> pdf = [] \<or> \<not> os_path_exists (files (world s)) pdf)"

definition require_pdf ::
  "(update \<Rightarrow> bot \<Rightarrow> outcome \<times> bot) \<Rightarrow> update \<Rightarrow> bot \<Rightarrow> outcome \<times> bot" where
  "require_pdf func upd s =
     (if no_document upd s
      then (Returned, reply_text upd (Text ''Please upload a PDF first.'') s)
      else func upd s)"

text \<open>
  \<^verbatim>\<open>
  async def handle_pdf_upload(update, context):
      doc = update.message.document
      if not doc or not doc.file_name.lower().endswith(".pdf"):
          await update.message.reply_text("Please upload a PDF file.")
          return
      safe_name = f"{update.message.from_user.id}_{int(time.time())}_{doc.file_name}"
      local_path = os.path.join(WORK, safe_name)
      await update.message.reply_text("Downloading your PDF...")
      file = await doc.get_file()
      await file.download_to_drive(local_path)
      context.user_data["last_pdf"] = local_path
      pages = get_page_count(local_path)
      ...
      await update.message.reply_text(f"... Pages: {pages} ... {os.path.basename(local_path)}")
  \<close>
  \<open>now\<close> is \<^verbatim>\<open>int(time.time())\<close>.
\<close>

definition upload_path :: "int \<Rightarrow> int \<Rightarrow> string \<Rightarrow> string" where
  "upload_path uid now name =
     os_path_join WORK (str_int uid @ ''_'' @ str_int now @ ''_'' @ name)"

definition handle_pdf_upload :: "int \<Rightarrow> update \<Rightarrow> bot \<Rightarrow> outcome \<times> bot" where
  "handle_pdf_upload now upd s =
     (case message_document upd of
        None \<Rightarrow> (Returned, reply_text upd (Text ''Please upload a PDF file.'') s)
      | Some doc \<Rightarrow>
          (case file_name doc of
             None \<Rightarrow> (RaisedException ''AttributeError'', s)
           | Some name \<Rightarrow>
               if \<not> endswith (lower name) ''.pdf''
               then (Returned, reply_text upd (Text ''Please upload a PDF file.'') s)
               else
                 let local_path = upload_path (from_user_id upd) now name;
                     s1 = reply_text upd (Text ''Downloading your PDF...'') s
                 in (case download doc of
                       None \<Rightarrow> (RaisedException ''download failed'', s1)
                     | Some f \<Rightarrow>
                         let w = world s1;
                             w1 = w\<lparr>files := (files w)(local_path \<mapsto> f)\<rparr>;
                             w2 = w1\<lparr>user_data := (user_data w1)
                                    (from_user_id upd :=
                                       (user_data w1 (from_user_id upd))(''last_pdf'' \<mapsto> local_path))\<rparr>;
                             pages = get_page_count (files w2) local_path
                         in (Returned,
                             reply_text upd (PdfReceived pages (os_path_basename local_path))
                               (s1\<lparr>world := w2\<rparr>)))))"

text \<open>
  \<^verbatim>\<open>
  @require_pdf
  async def cmd_clean(update, context):
      pdf = context.user_data["last_pdf"]
      out = pdf.replace(".pdf", "_clean.pdf")
      async def task(): ...
      enqueue(lambda: asyncio.run(task()))
  \<close>
\<close>

definition cmd_clean_body :: "update \<Rightarrow> bot \<Rightarrow> outcome \<times> bot" where
  "cmd_clean_body upd s =
     (case last_pdf upd s of
        None \<Rightarrow> (RaisedException ''KeyError'', s)
      | Some pdf \<Rightarrow>
          let out = replace pdf ''.pdf'' ''_clean.pdf''
          in (Returned, enqueue (CleanTask upd pdf out) s))"

definition cmd_clean :: "update \<Rightarrow> bot \<Rightarrow> outcome \<times> bot" where
  "cmd_clean = require_pdf cmd_clean_body"

text \<open>The heavy check mark U+2714, as its three UTF-8 bytes.\<close>

definition check_mark :: string where
  "check_mark = [char_of (226 :: nat), char_of (156 :: nat), char_of (148 :: nat)]"

text \<open>
  What the queued closure of \<^verbatim>\<open>cmd_clean\<close> does when the worker calls it:
  \<^verbatim>\<open>
  async def task():
      msg = await update.message.reply_text("Cleaning PDF...")
      progress_bar(msg, total_steps=8, action="Cleaning", speed=0.08)
      remove_watermark(pdf, out)
      await msg.edit_text("(U+2714) Cleaned! Sending file...")
      await update.message.reply_document(open(out, "rb"))
  enqueue(lambda: asyncio.run(task()))
  \<close>
  It acts on the world alone. \<open>sends\<close> says which calls of the transport go through; one
  that does not raises, and ends the job there, as does an error of \<^verbatim>\<open>remove_watermark\<close>:
  the worker's \<^verbatim>\<open>except Exception\<close> is the only handler above them. \<^verbatim>\<open>msg\<close> is a message of
  the transport, so the progress bar's \<^verbatim>\<open>edit_text\<close> calls are those of
  \<open>telegram_message\<close>; the status updates the bar issues would replace the text of \<^verbatim>\<open>msg\<close>.
  After a \<^verbatim>\<open>remove_watermark\<close> that returned, \<^verbatim>\<open>out\<close> exists and \<^verbatim>\<open>open(out, "rb")\<close>
  succeeds.
\<close>

definition clean_task ::
  "(reply \<Rightarrow> bool) \<Rightarrow> (string \<Rightarrow> bool) \<Rightarrow> (page \<Rightarrow> page) \<Rightarrow> update \<Rightarrow> string \<Rightarrow> string \<Rightarrow>
   bot_world \<Rightarrow> outcome \<times> bot_world" where
  "clean_task sends isdir redact upd pdf out w =
     (let uid = from_user_id upd;
          cleaned = Edited (check_mark @ '' Cleaned! Sending file...'')
      in if \<not> sends (Text ''Cleaning PDF...'') then (RaisedException ''TelegramError'', w)
         else
           let w1 = w\<lparr>replies := replies w @ [(uid, Text ''Cleaning PDF...'')]\<rparr>;
               bar = progress_bar telegram_message 8 ''Cleaning'' (8 / 100 :: real);
               w2 = w1\<lparr>replies := replies w1 @ map (\<lambda>text. (uid, Edited text)) (status_updates bar)\<rparr>
           in (case remove_watermark isdir redact (files w2) pdf out of
                 Inl e \<Rightarrow> (RaisedException (error_text e), w2)
               | Inr written \<Rightarrow>
                   let w3 = w2\<lparr>files := written\<rparr>
                   in if \<not> sends cleaned then (RaisedException ''TelegramError'', w3)
                      else
                        let w4 = w3\<lparr>replies := replies w3 @ [(uid, cleaned)]\<rparr>
                        in if \<not> sends (Document out) then (RaisedException ''TelegramError'', w4)
                           else (Returned, w4\<lparr>replies := replies w4 @ [(uid, Document out)]\<rparr>)))"

subsection \<open>The merge commands\<close>

text \<open>
  Modelled from the spec: the handlers of \<^verbatim>\<open>/merge\<close> and \<^verbatim>\<open>/done\<close> are missing from the
  source, which only lists them in the help text (\<^verbatim>\<open>/merge - Add PDF to merge queue\<close>,
  \<^verbatim>\<open>/done - Merge PDFs\<close>) and in a comment of \<^verbatim>\<open>main\<close>. The spec: "A distinct sub-flow for
  "merge" accumulates multiple uploaded documents into an ordered list (a merge set)
  associated with the session rather than immediately processing; a separate "finalize"
  command drains that ordered list, builds one Job invoking the merge operation over the
  whole sequence, and clears the set", and "Merge set: ordered, session-scoped accumulation
  of documents awaiting a finalize-merge command". A session is "one per user/chat
  identity"; it is identified as \<^verbatim>\<open>context.user_data\<close> identifies it, by the user's id.

  So the state of the sub-flow is one ordered list per session, kept beside the bot, and
  \<open>merge_record\<close> appends a document to the list of the session of the update.
\<close>

type_synonym merge_sets = "int \<Rightarrow> string list"

definition merge_record :: "update \<Rightarrow> string \<Rightarrow> merge_sets \<times> bot \<Rightarrow> merge_sets \<times> bot" where
  "merge_record upd ref st =
     (case st of (sets, s) \<Rightarrow>
        (sets(from_user_id upd := sets (from_user_id upd) @ [ref]), s))"

text \<open>
  Modelled from the spec: the finalize command "drains that ordered list, builds one Job
  invoking the merge operation over the whole sequence, and clears the set". The list is
  that of the session of the update.
\<close>

definition merge_finalize :: "update \<Rightarrow> string \<Rightarrow> merge_sets \<times> bot \<Rightarrow> merge_sets \<times> bot" where
  "merge_finalize upd output_path st =
     (case st of (sets, s) \<Rightarrow>
        (sets(from_user_id upd := []),
         enqueue (MergeTask upd (sets (from_user_id upd)) output_path) s))"

text \<open>
  Modelled from the spec: the payload of that job, "merge([A,B,C], output)". The merge
  operation is the source's \<^verbatim>\<open>merge_pdfs(file_list, output_path)\<close>; an error it raises
  ends the job. The spec fixes no texts for the status messages of a merge job, and none
  is modelled.
\<close>

definition merge_task ::
  "(string \<Rightarrow> bool) \<Rightarrow> update \<Rightarrow> string list \<Rightarrow> string \<Rightarrow> bot_world \<Rightarrow> outcome \<times> bot_world" where
  "merge_task isdir upd file_list output_path w =
     (case merge_pdfs isdir (files w) file_list output_path of
        Inl e \<Rightarrow> (RaisedException (error_text e), w)
      | Inr written \<Rightarrow> (Returned, w\<lparr>files := written\<rparr>))"

subsection \<open>What the worker invokes\<close>

text \<open>The worker's \<^verbatim>\<open>task()\<close>, for the jobs of the bot: the payload of the job, on the world.\<close>

definition run_job ::
  "(reply \<Rightarrow> bool) \<Rightarrow> (string \<Rightarrow> bool) \<Rightarrow> (page \<Rightarrow> page) \<Rightarrow> job \<Rightarrow> bot_world \<Rightarrow>
   outcome \<times> bot_world" where
  "run_job sends isdir redact task w =
     (case task of
        CleanTask upd pdf out \<Rightarrow> clean_task sends isdir redact upd pdf out w
      | MergeTask upd file_list output_path \<Rightarrow> merge_task isdir upd file_list output_path w)"

section \<open>Concrete inputs\<close>

text \<open>A payload table for the queue: job 2 raises \<^verbatim>\<open>Exception("boom")\<close>, every other job
  returns; each appends its number to the world. Standard output either takes every line
  or, closed, takes none.\<close>

definition demo_invoke :: "nat \<Rightarrow> nat list \<Rightarrow> outcome \<times> nat list" where
  "demo_invoke n done = (if n = 2 then RaisedException ''boom'' else Returned, done @ [n])"

definition demo_schedule :: "nat action list" where
  "demo_schedule = [Enqueue 1, Get, Enqueue 2, Enqueue 3, Finish, Get, Finish, Get]"

definition stdout_open :: "string \<Rightarrow> bool" where
  "stdout_open e = True"

definition stdout_closed :: "string \<Rightarrow> bool" where
  "stdout_closed e = False"

text \<open>Files with one three-page PDF; the folder \<^verbatim>\<open>out\<close> exists, or no folder does.\<close>

definition demo_fs :: fs where
  "demo_fs = [''in.pdf'' \<mapsto> Pdf [7, 8, 9]]"

definition out_exists :: "string \<Rightarrow> bool" where
  "out_exists p = (p = ''out'')"

definition no_folder :: "string \<Rightarrow> bool" where
  "no_folder p = False"

text \<open>A bot that has just started, user 42, and uploads of a three-page PDF under a
  given file name; \<open>entered\<close> is a command body that raises as soon as it is entered;
  \<open>demo_deleted\<close> is the bot after an upload whose file has since been removed.\<close>

definition demo_world :: bot_world where
  "demo_world = \<lparr>user_data = (\<lambda>uid. Map.empty), files = Map.empty, replies = [], MERGE_QUEUE = []\<rparr>"

definition demo_bot :: bot where
  "demo_bot = startup demo_world"

definition demo_doc :: "string \<Rightarrow> document" where
  "demo_doc name = \<lparr>file_name = Some name, download = Some (Pdf [1, 2, 3])\<rparr>"

definition demo_upload :: "string \<Rightarrow> update" where
  "demo_upload name = \<lparr>from_user_id = 42, message_document = Some (demo_doc name)\<rparr>"

definition entered :: "update \<Rightarrow> bot \<Rightarrow> outcome \<times> bot" where
  "entered upd s = (RaisedException ''entered'', s)"

definition demo_deleted :: bot where
  "demo_deleted =
     (let s = snd (handle_pdf_upload 1700 (demo_upload ''a.pdf'') demo_bot)
      in s\<lparr>world := (world s)\<lparr>files := Map.empty\<rparr>\<rparr>)"

text \<open>For a clean job: the folder \<^verbatim>\<open>pdf_files\<close> exists (the module creates it when it is
  loaded), every call of the transport goes through, and cleaning turns a page into page 0.\<close>

definition work_exists :: "string \<Rightarrow> bool" where
  "work_exists p = (p = ''pdf_files'')"

definition all_sent :: "reply \<Rightarrow> bool" where
  "all_sent r = True"

definition whiten :: "page \<Rightarrow> page" where
  "whiten p = 0"

text \<open>Two users at the merge commands, with no merge set begun, and three PDFs.\<close>

definition user :: "int \<Rightarrow> update" where
  "user uid = \<lparr>from_user_id = uid, message_document = None\<rparr>"

definition no_sets :: merge_sets where
  "no_sets uid = []"

definition demo_merge_fs :: fs where
  "demo_merge_fs = [''A.pdf'' \<mapsto> Pdf [1, 2], ''B.pdf'' \<mapsto> Pdf [3], ''C.pdf'' \<mapsto> Pdf [4, 5]]"

definition demo_merge_world :: bot_world where
  "demo_merge_world = demo_world\<lparr>files := demo_merge_fs\<rparr>"

text \<open>What one step of the progress loop does, and a message whose \<^verbatim>\<open>edit_text\<close> is an
  ordinary method that raises at every call.\<close>

definition step_events ::
  "(nat \<Rightarrow> string \<Rightarrow> call_result) \<Rightarrow> nat \<Rightarrow> string \<Rightarrow> 'd \<Rightarrow> int \<Rightarrow> 'd progress_event list" where
  "step_events message total_steps action speed step =
     [EditText (progress_text action (nat step) total_steps)
        (message (nat step) (progress_text action (nat step) total_steps)),
      Sleep speed]"

definition always_raises :: "nat \<Rightarrow> string \<Rightarrow> call_result" where
  "always_raises step text = Raised"

text \<open>The bot after user 42 has uploaded the three-page PDF as \<^verbatim>\<open>REPORT.PDF\<close>, and as
  \<^verbatim>\<open>a.pdf.PDF\<close>, at time 1700.\<close>

definition report_bot :: bot where
  "report_bot = snd (handle_pdf_upload 1700 (demo_upload ''REPORT.PDF'') demo_bot)"

definition inner_bot :: bot where
  "inner_bot = snd (handle_pdf_upload 1700 (demo_upload ''a.pdf.PDF'') demo_bot)"

section \<open>The worker serves the queue in order, one job at a time\<close>

lemma started_append: "started (xs @ ys) = started xs @ started ys"
  by (induction xs rule: started.induct) auto

lemma executing_append: "executing (xs @ ys) = executing xs + executing ys"
  by (induction xs rule: executing.induct) auto

lemma perform_fifo:
  "started (trace (perform invoke prints a s)) @ job_queue (perform invoke prints a s)
     = started (trace s) @ job_queue s @ submitted [a]"
  by (cases a)
     (auto simp: enqueue_def worker_get_def worker_finish_def task_done_def started_append
           split: worker_pc.splits list.splits outcome.splits prod.splits)

lemma submitted_Cons: "submitted (a # sched) = submitted [a] @ submitted sched"
  by (cases a) auto

lemma run_fifo:
  "started (trace (run invoke prints sched s)) @ job_queue (run invoke prints sched s)
     = started (trace s) @ job_queue s @ submitted sched"
proof (induction sched arbitrary: s)
  case Nil
  show ?case by simp
next
  case (Cons a sched)
  let ?t = "perform invoke prints a s"
  have "started (trace (run invoke prints (a # sched) s)) @ job_queue (run invoke prints (a # sched) s)
      = started (trace ?t) @ job_queue ?t @ submitted sched"
    using Cons.IH [of ?t] by simp
  also have "\<dots> = started (trace s) @ job_queue s @ submitted [a] @ submitted sched"
    using perform_fifo [of invoke prints a s] by (metis append.assoc)
  finally show ?case using submitted_Cons [of a sched] by simp
qed

lemma perform_busy:
  "executing (trace s) = busy s \<Longrightarrow>
   executing (trace (perform invoke prints a s)) = busy (perform invoke prints a s)"
  by (cases a)
     (auto simp: busy_def enqueue_def worker_get_def worker_finish_def task_done_def
             executing_append
           split: worker_pc.splits list.splits outcome.splits prod.splits)

lemma run_busy:
  "executing (trace s) = busy s \<Longrightarrow>
   executing (trace (run invoke prints sched s)) = busy (run invoke prints sched s)"
  by (induction sched arbitrary: s) (auto simp: perform_busy simp del: perform.simps)

lemma finished_append: "finished (xs @ ys) = finished xs @ finished ys"
  by (induction xs rule: finished.induct) auto

text \<open>The payloads run so far are those of the jobs entered, in the order they were
  entered, each once, and the world is what they leave when run in that order.\<close>

lemma perform_executed:
  assumes "started (trace s) = finished (trace s) @ running s"
    and "world s = foldl (\<lambda>v task. snd (invoke task v)) w (finished (trace s))"
  shows "started (trace (perform invoke prints a s))
           = finished (trace (perform invoke prints a s)) @ running (perform invoke prints a s)
       \<and> world (perform invoke prints a s)
           = foldl (\<lambda>v task. snd (invoke task v)) w (finished (trace (perform invoke prints a s)))"
proof (cases a)
  case (Enqueue task)
  then show ?thesis using assms by (simp add: enqueue_def running_def)
next
  case Get
  then show ?thesis
    using assms
    by (auto simp: worker_get_def running_def started_append finished_append
             split: worker_pc.splits list.splits)
next
  case Finish
  then show ?thesis
    using assms
    by (auto simp: worker_finish_def task_done_def running_def started_append finished_append
             split: worker_pc.splits outcome.splits prod.splits)
qed

lemma run_executed:
  assumes "started (trace s) = finished (trace s) @ running s"
    and "world s = foldl (\<lambda>v task. snd (invoke task v)) w (finished (trace s))"
  shows "started (trace (run invoke prints sched s))
           = finished (trace (run invoke prints sched s)) @ running (run invoke prints sched s)
       \<and> world (run invoke prints sched s)
           = foldl (\<lambda>v task. snd (invoke task v)) w (finished (trace (run invoke prints sched s)))"
  using assms
proof (induction sched arbitrary: s)
  case Nil
  then show ?case by simp
next
  case (Cons a sched)
  have "started (trace (perform invoke prints a s))
           = finished (trace (perform invoke prints a s)) @ running (perform invoke prints a s)
       \<and> world (perform invoke prints a s)
           = foldl (\<lambda>v task. snd (invoke task v)) w (finished (trace (perform invoke prints a s)))"
    using Cons.prems by (rule perform_executed)
  then show ?case
    using Cons.IH [of "perform invoke prints a s"] by simp
qed

lemma running_at_most_one: "length (running s) \<le> 1"
  by (simp add: running_def split: worker_pc.splits)

lemma run_append:
  "run invoke prints (xs @ ys) s = run invoke prints ys (run invoke prints xs s)"
  by (induction xs arbitrary: s) auto

lemma serve_Suc: "serve (Suc n) = Get # Finish # serve n"
  by (simp add: serve_def)

text \<open>One job served. The counter of unfinished tasks is at least the length of the queue
  in every state the process reaches, so \<^verbatim>\<open>task_done\<close> does not raise.\<close>

lemma serve_one:
  assumes "worker_at s = Waiting" and "job_queue s = task # rest"
    and "\<not> ends_worker prints (fst (invoke task (world s)))"
    and "length (job_queue s) \<le> unfinished_tasks s"
  shows "worker_at (run invoke prints [Get, Finish] s) = Waiting
       \<and> job_queue (run invoke prints [Get, Finish] s) = rest
       \<and> started (trace (run invoke prints [Get, Finish] s)) = started (trace s) @ [task]
       \<and> world (run invoke prints [Get, Finish] s) = snd (invoke task (world s))
       \<and> length rest \<le> unfinished_tasks (run invoke prints [Get, Finish] s)"
  using assms
  by (auto simp: worker_get_def worker_finish_def task_done_def ends_worker_def started_append
           split: outcome.splits prod.splits)

lemma serve_all:
  assumes "worker_at s = Waiting" and "job_queue s = tasks"
    and "\<forall>task \<in> set tasks. \<forall>w. \<not> ends_worker prints (fst (invoke task w))"
    and "length (job_queue s) \<le> unfinished_tasks s"
  shows "worker_at (run invoke prints (serve (length tasks)) s) = Waiting
       \<and> job_queue (run invoke prints (serve (length tasks)) s) = []
       \<and> started (trace (run invoke prints (serve (length tasks)) s)) = started (trace s) @ tasks
       \<and> world (run invoke prints (serve (length tasks)) s)
           = foldl (\<lambda>w task. snd (invoke task w)) (world s) tasks"
  using assms
proof (induction tasks arbitrary: s)
  case Nil
  then show ?case by (simp add: serve_def)
next
  case (Cons task rest)
  let ?s = "run invoke prints [Get, Finish] s"
  have one: "worker_at ?s = Waiting \<and> job_queue ?s = rest
      \<and> started (trace ?s) = started (trace s) @ [task]
      \<and> world ?s = snd (invoke task (world s))
      \<and> length rest \<le> unfinished_tasks ?s"
    using serve_one [of s task rest prints invoke] Cons.prems by simp
  have "\<forall>t \<in> set rest. \<forall>w. \<not> ends_worker prints (fst (invoke t w))"
    using Cons.prems by simp
  with one have "worker_at (run invoke prints (serve (length rest)) ?s) = Waiting
       \<and> job_queue (run invoke prints (serve (length rest)) ?s) = []
       \<and> started (trace (run invoke prints (serve (length rest)) ?s)) = started (trace ?s) @ rest
       \<and> world (run invoke prints (serve (length rest)) ?s)
           = foldl (\<lambda>w task. snd (invoke task w)) (world ?s) rest"
    using Cons.IH [of ?s] by simp
  moreover have "run invoke prints (serve (length (task # rest))) s
      = run invoke prints (serve (length rest)) ?s"
    by (simp add: serve_Suc)
  ultimately show ?case using one by simp
qed

lemma run_enqueues:
  "run invoke prints (map Enqueue tasks) s
     = s\<lparr>job_queue := job_queue s @ tasks, unfinished_tasks := unfinished_tasks s + length tasks\<rparr>"
  by (induction tasks arbitrary: s) (auto simp: enqueue_def)

text \<open>Once the thread has ended nothing is taken from the queue any more.\<close>

lemma dead_stays:
  "worker_at s = Dead \<Longrightarrow>
   worker_at (run invoke prints sched s) = Dead
   \<and> trace (run invoke prints sched s) = trace s
   \<and> job_queue (run invoke prints sched s) = job_queue s @ submitted sched"
proof (induction sched arbitrary: s)
  case Nil
  then show ?case by simp
next
  case (Cons a sched)
  have step: "worker_at (perform invoke prints a s) = Dead
      \<and> trace (perform invoke prints a s) = trace s
      \<and> job_queue (perform invoke prints a s) = job_queue s @ submitted [a]"
    using Cons.prems
    by (cases a) (simp_all add: enqueue_def worker_get_def worker_finish_def)
  then show ?case
    using Cons.IH [of "perform invoke prints a s"] submitted_Cons [of a sched] by simp
qed

text \<open>
  C1. For every interleaving of \<^verbatim>\<open>enqueue\<close> calls with the worker's steps, from the start of
  the process: the jobs whose payload the worker has entered, in the order it entered them,
  followed by the jobs still queued, are the jobs submitted, in submission order. The
  payloads run to their end are those of the jobs entered, in that order, but for the one
  the worker is inside, if any, and the world is what these payloads leave when run one
  after the other in submission order. The number of payloads entered and not yet left is
  0 or 1. When \<open>tasks\<close> are enqueued and none of their payloads ends the worker thread, the
  worker, given its turns, runs all of them in exactly that order and is back at
  \<^verbatim>\<open>job_queue.get()\<close> with an empty queue.
\<close>

theorem worker_fifo_one_at_a_time:
  fixes invoke :: "'j \<Rightarrow> 'w \<Rightarrow> outcome \<times> 'w"
  shows "started (trace (run invoke prints sched (startup w)))
           @ job_queue (run invoke prints sched (startup w)) = submitted sched
       \<and> started (trace (run invoke prints sched (startup w)))
           = finished (trace (run invoke prints sched (startup w)))
             @ running (run invoke prints sched (startup w))
       \<and> world (run invoke prints sched (startup w))
           = foldl (\<lambda>v task. snd (invoke task v)) w
               (finished (trace (run invoke prints sched (startup w))))
       \<and> length (running (run invoke prints sched (startup w))) \<le> 1
       \<and> 0 \<le> executing (trace (run invoke prints sched (startup w)))
       \<and> executing (trace (run invoke prints sched (startup w))) \<le> 1
       \<and> (list_all (\<lambda>task. \<forall>v. \<not> ends_worker prints (fst (invoke task v))) tasks \<longrightarrow>
            finished (trace (run invoke prints (map Enqueue tasks @ serve (length tasks)) (startup w)))
              = tasks
          \<and> world (run invoke prints (map Enqueue tasks @ serve (length tasks)) (startup w))
              = foldl (\<lambda>v task. snd (invoke task v)) w tasks
          \<and> job_queue (run invoke prints (map Enqueue tasks @ serve (length tasks)) (startup w)) = []
          \<and> worker_at (run invoke prints (map Enqueue tasks @ serve (length tasks)) (startup w))
              = Waiting)"
proof -
  let ?s = "run invoke prints sched (startup w)"
  have fifo: "started (trace ?s) @ job_queue ?s = submitted sched"
    using run_fifo [of invoke prints sched "startup w"] by (simp add: startup_def)
  have ran: "started (trace ?s) = finished (trace ?s) @ running ?s
      \<and> world ?s = foldl (\<lambda>v task. snd (invoke task v)) w (finished (trace ?s))"
    by (rule run_executed) (simp_all add: startup_def running_def)
  have "executing (trace (startup w :: ('j, 'w) system)) = busy (startup w :: ('j, 'w) system)"
    by (simp add: startup_def busy_def)
  then have "executing (trace ?s) = busy ?s"
    by (rule run_busy)
  then have one: "0 \<le> executing (trace ?s) \<and> executing (trace ?s) \<le> 1"
    by (simp add: busy_def split: worker_pc.splits)
  let ?r = "run invoke prints (map Enqueue tasks @ serve (length tasks)) (startup w)"
  have all: "finished (trace ?r) = tasks
          \<and> world ?r = foldl (\<lambda>v task. snd (invoke task v)) w tasks
          \<and> job_queue ?r = [] \<and> worker_at ?r = Waiting"
    if ok: "list_all (\<lambda>task. \<forall>v. \<not> ends_worker prints (fst (invoke task v))) tasks"
  proof -
    let ?q = "run invoke prints (map Enqueue tasks) (startup w)"
    have q: "worker_at ?q = Waiting" "job_queue ?q = tasks" "trace ?q = []" "world ?q = w"
      "length (job_queue ?q) \<le> unfinished_tasks ?q"
      by (simp_all add: run_enqueues startup_def)
    have "\<forall>task \<in> set tasks. \<forall>v. \<not> ends_worker prints (fst (invoke task v))"
      using ok by (simp add: list_all_iff)
    then have served: "worker_at ?r = Waiting \<and> job_queue ?r = [] \<and> started (trace ?r) = tasks
        \<and> world ?r = foldl (\<lambda>v task. snd (invoke task v)) w tasks"
      using serve_all [of ?q tasks prints invoke] q by (simp add: run_append)
    have "started (trace ?r) = finished (trace ?r) @ running ?r"
      by (rule conjunct1, rule run_executed [where w = w])
         (simp_all add: startup_def running_def)
    then have "finished (trace ?r) = tasks"
      using served by (simp add: running_def)
    then show ?thesis using served by simp
  qed
  show ?thesis using fifo ran one all running_at_most_one [of ?s] by blast
qed

theorem worker_fifo_one_at_a_time_witness:
  "started (trace (run demo_invoke stdout_open demo_schedule (startup [])))
      @ job_queue (run demo_invoke stdout_open demo_schedule (startup [])) = [1, 2, 3]
   \<and> submitted demo_schedule = [1, 2, 3]
   \<and> finished (trace (run demo_invoke stdout_open demo_schedule (startup []))) = [1, 2]
   \<and> running (run demo_invoke stdout_open demo_schedule (startup [])) = [3]
   \<and> world (run demo_invoke stdout_open demo_schedule (startup [])) = [1, 2]
   \<and> executing (trace (run demo_invoke stdout_open demo_schedule (startup []))) = 1
   \<and> list_all (\<lambda>task. \<forall>v. \<not> ends_worker stdout_open (fst (demo_invoke task v))) [1, 2, 3]
   \<and> finished (trace (run demo_invoke stdout_open (map Enqueue [1, 2, 3] @ serve 3) (startup [])))
        = [1, 2, 3]
   \<and> world (run demo_invoke stdout_open (map Enqueue [1, 2, 3] @ serve 3) (startup []))
        = [1, 2, 3]
   \<and> stdout (run demo_invoke stdout_open (map Enqueue [1, 2, 3] @ serve 3) (startup []))
        = [''Error in job: boom'']"
  using worker_fifo_one_at_a_time [of demo_invoke stdout_open demo_schedule "[]" "[1, 2, 3]"]
  by (simp add: demo_invoke_def demo_schedule_def stdout_open_def ends_worker_def startup_def
        enqueue_def worker_get_def worker_finish_def task_done_def serve_def numeral_3_eq_3
        running_def)

text \<open>When the report prints, a failing job leaves the worker at \<^verbatim>\<open>job_queue.get()\<close>
  and the rest of the queue as it was, and the next job is taken and run.\<close>

lemma failure_isolated_when_printed:
  assumes "worker_at s = Waiting" and "job_queue s = task # next # rest"
    and "invoke task (world s) = (RaisedException e, w)"
    and "prints e" and "0 < unfinished_tasks s"
  shows "run invoke prints [Get, Finish] s
           = s\<lparr>job_queue := next # rest, worker_at := Waiting, world := w,
                trace := trace s @ [Started task, Failed task e],
                stdout := stdout s @ [''Error in job: '' @ e],
                unfinished_tasks := unfinished_tasks s - 1\<rparr>
       \<and> worker_at (run invoke prints [Get, Finish, Get] s) = Invoking next
       \<and> job_queue (run invoke prints [Get, Finish, Get] s) = rest"
  using assms
  by (auto simp: worker_get_def worker_finish_def task_done_def)

text \<open>
  C2. The claim fails where the report cannot be printed. Job 2 raises
  \<^verbatim>\<open>Exception("boom")\<close> and standard output is closed: the \<^verbatim>\<open>print\<close> in the handler raises,
  the worker thread ends, and job 3, enqueued behind job 2, stays in the queue: whatever
  is scheduled afterwards, its payload is never entered.
\<close>

theorem unprintable_error_ends_worker:
  "worker_at (run demo_invoke stdout_closed ([Enqueue 2, Enqueue 3, Get, Finish] @ sched) (startup []))
     = Dead
   \<and> started (trace (run demo_invoke stdout_closed ([Enqueue 2, Enqueue 3, Get, Finish] @ sched)
        (startup []))) = [2]
   \<and> job_queue (run demo_invoke stdout_closed ([Enqueue 2, Enqueue 3, Get, Finish] @ sched)
        (startup [])) = 3 # submitted sched
   \<and> trace (run demo_invoke stdout_closed ([Enqueue 2, Enqueue 3, Get, Finish] @ sched)
        (startup [])) = [Started 2, ReportFailed 2 ''boom'']
   \<and> stdout (run demo_invoke stdout_closed [Enqueue 2, Enqueue 3, Get, Finish] (startup [])) = []"
proof -
  let ?d = "run demo_invoke stdout_closed [Enqueue 2, Enqueue 3, Get, Finish] (startup [])"
  have d: "worker_at ?d = Dead" "trace ?d = [Started 2, ReportFailed 2 ''boom'']"
    "job_queue ?d = [3]" "stdout ?d = []"
    by (simp_all add: demo_invoke_def stdout_closed_def startup_def enqueue_def worker_get_def
          worker_finish_def)
  have "run demo_invoke stdout_closed ([Enqueue 2, Enqueue 3, Get, Finish] @ sched) (startup [])
      = run demo_invoke stdout_closed sched ?d"
    by (rule run_append)
  then show ?thesis
    using dead_stays [OF d(1), of demo_invoke stdout_closed sched] d by simp
qed

section \<open>Strings, paths and replacement\<close>

lemma replace_absent:
  "old \<noteq> [] \<Longrightarrow> \<not> sublist old s \<Longrightarrow> replace s old new = s"
proof (induction s)
  case Nil
  then show ?case by (simp add: replace.simps)
next
  case (Cons c s)
  have no_prefix: "\<not> startswith (c # s) old"
  proof
    assume "startswith (c # s) old"
    then have "c # s = old @ drop (length old) (c # s)"
      unfolding startswith_def by (metis append_take_drop_id)
    then have "sublist old (c # s)"
      by (metis sublist_appendI append_Nil)
    with Cons.prems show False by simp
  qed
  have "\<not> sublist old s"
    using Cons.prems by (simp add: sublist_Cons_right)
  then have "replace s old new = s"
    using Cons.IH Cons.prems by simp
  then show ?case
    using Cons.prems(1) no_prefix by (subst replace.simps) simp
qed

lemma sublist_skip:
  "c \<notin> set pre \<Longrightarrow> sublist (c # xs) (pre @ ys) \<Longrightarrow> sublist (c # xs) ys"
  by (induction pre) (auto simp: sublist_Cons_right)

lemma digit_not: "d < 10 \<Longrightarrow> k < 48 \<Longrightarrow> char_of (48 + d :: nat) \<noteq> (char_of (k::nat) :: char)"
proof
  assume a: "d < 10" "k < 48" and "char_of (48 + d) = (char_of k :: char)"
  then have "(of_char (char_of (48 + d) :: char) :: nat) = of_char (char_of k :: char)" by simp
  then have "(48 + d) mod 256 = k mod 256" by (simp add: of_char_of)
  with a show False by simp
qed

lemma str_nat_chars: "k < 48 \<Longrightarrow> char_of (k::nat) \<notin> set (str_nat n)"
proof (induction n rule: str_nat.induct)
  case (1 n)
  show ?case
  proof (cases "n < 10")
    case True
    then show ?thesis using digit_not [of n k] 1 by (subst str_nat.simps) auto
  next
    case False
    have "n mod 10 < 10" by simp
    then have "char_of (48 + n mod 10) \<noteq> (char_of k :: char)" using digit_not 1 by blast
    then show ?thesis using False 1 by (subst str_nat.simps) auto
  qed
qed

lemma dot_char: "CHR ''.'' = char_of (46::nat)" by code_simp
lemma slash_char: "CHR ''/'' = char_of (47::nat)" by code_simp
lemma minus_char: "CHR ''-'' = char_of (45::nat)" by code_simp

lemma char_of_neq: "a < 256 \<Longrightarrow> b < 256 \<Longrightarrow> a \<noteq> b \<Longrightarrow> (char_of (a::nat) :: char) \<noteq> char_of b"
  by (metis of_char_of mod_less)

lemma str_int_no_dot: "CHR ''.'' \<notin> set (str_int i)"
  using str_nat_chars [of 46] char_of_neq [of 46 45]
  by (auto simp: str_int_def dot_char minus_char)

lemma str_int_no_slash: "CHR ''/'' \<notin> set (str_int i)"
  using str_nat_chars [of 47] char_of_neq [of 47 45]
  by (auto simp: str_int_def slash_char minus_char)

lemma str_nat_nonempty: "str_nat n \<noteq> []"
  by (subst str_nat.simps) simp

lemma str_int_nonempty: "str_int i \<noteq> []"
  by (simp add: str_int_def str_nat_nonempty)

section \<open>The progress bar: the updates issued, and the percentage shown\<close>

lemma progress_steps_events:
  "progress_steps message total_steps action speed steps
     = concat (map (step_events message total_steps action speed) steps)"
  by (induction steps) (simp_all add: step_events_def Let_def)

lemma edit_calls_concat:
  "edit_calls (concat (map (step_events message total_steps action speed) steps))
     = map (\<lambda>step. progress_text action (nat step) total_steps) steps"
  by (induction steps) (simp_all add: step_events_def)

lemma iterations_concat:
  "iterations (concat (map (step_events message total_steps action speed) steps)) = length steps"
  by (induction steps) (simp_all add: step_events_def)

lemma status_updates_concat:
  "status_updates (concat (map (step_events message total_steps action speed) steps))
     = map (\<lambda>step. progress_text action (nat step) total_steps)
         (filter (\<lambda>step. message (nat step) (progress_text action (nat step) total_steps)
                           \<noteq> NotAwaited) steps)"
  by (induction steps) (simp_all add: step_events_def)

text \<open>
  Whatever the message does, \<^verbatim>\<open>progress_bar\<close> is, step after step from 1 to
  \<^verbatim>\<open>total_steps\<close>, one \<^verbatim>\<open>edit_text\<close> call expression with the step's text followed by one
  \<^verbatim>\<open>sleep\<close>. When \<^verbatim>\<open>edit_text\<close> is an ordinary method, each call is a status update,
  and the loop runs all its steps whether the updates raise or not.
\<close>

lemma progress_bar_steps:
  "progress_bar message total_steps action speed
     = concat (map (step_events message (nat total_steps) action speed) [1..total_steps])"
  "edit_calls (progress_bar message total_steps action speed)
     = map (\<lambda>step. progress_text action (nat step) (nat total_steps)) [1..total_steps]"
  "length (edit_calls (progress_bar message total_steps action speed)) = nat total_steps"
  "iterations (progress_bar message total_steps action speed) = nat total_steps"
  by (simp_all add: progress_bar_def progress_steps_events edit_calls_concat iterations_concat)

lemma ordinary_method_updates:
  assumes "\<And>step text. message step text \<noteq> NotAwaited"
  shows "status_updates (progress_bar message total_steps action speed)
           = edit_calls (progress_bar message total_steps action speed)"
    and "length (status_updates (progress_bar message total_steps action speed)) = nat total_steps"
  using assms
  by (simp_all add: progress_bar_def progress_steps_events edit_calls_concat
        status_updates_concat)

lemma failing_updates_swallowed:
  "length (status_updates (progress_bar always_raises 8 ''Cleaning'' speed)) = 8"
  "iterations (progress_bar always_raises 8 ''Cleaning'' speed) = 8"
  using ordinary_method_updates(2) [of always_raises 8 "''Cleaning''" speed]
    progress_bar_steps(4) [of always_raises 8 "''Cleaning''" speed]
  by (simp_all add: always_raises_def)

lemma status_updates_telegram:
  "status_updates (progress_bar telegram_message total_steps action speed) = []"
  by (simp add: progress_bar_def progress_steps_events status_updates_concat
        telegram_message_def)

text \<open>
  C7. With the message \<^verbatim>\<open>cmd_clean\<close> passes, a message of the transport, each of the
  \<^verbatim>\<open>total_steps\<close> steps evaluates \<^verbatim>\<open>message.edit_text(text)\<close> once and all the
  iterations run, but no status update is issued at any step: \<^verbatim>\<open>edit_text\<close> is a coroutine
  function, and the call, which lacks the \<^verbatim>\<open>await\<close> that the job has two lines below,
  only builds a coroutine that is dropped. So it is for
  \<^verbatim>\<open>progress_bar(msg, total_steps=8, action="Cleaning", speed=0.08)\<close>: eight call
  expressions, eight iterations, no update.
\<close>

theorem progress_updates_never_issued:
  "status_updates (progress_bar telegram_message total_steps action speed) = []
   \<and> length (edit_calls (progress_bar telegram_message total_steps action speed)) = nat total_steps
   \<and> iterations (progress_bar telegram_message total_steps action speed) = nat total_steps
   \<and> status_updates (progress_bar telegram_message 8 ''Cleaning'' speed) = []
   \<and> length (edit_calls (progress_bar telegram_message 8 ''Cleaning'' speed)) = 8
   \<and> iterations (progress_bar telegram_message 8 ''Cleaning'' speed) = 8"
  by (simp add: progress_bar_def progress_steps_events status_updates_concat edit_calls_concat
        iterations_concat telegram_message_def)

subsection \<open>The percentage, evaluated\<close>

lemmas double_eval = to_double_def floor_log2_def round_half_even_def bitlen.simps Let_def

lemma float_100: "float_of_nat 100 = (7036874417766400, - 46)"
  by (simp add: float_of_nat_def double_eval)

lemma div_29_100: "true_div 29 100 = (5224175567749775, - 54)"
  by (simp add: true_div_def double_eval)

lemma log_29_100:
  "floor_log2 36761867406618650110129602560000 1267650600228229401496703205376 = 4"
  by (simp add: floor_log2_def bitlen.simps Let_def)

lemma mul_29_100:
  "float_mul (5224175567749775, - 54) (7036874417766400, - 46) = (8162774324609023, - 48)"
  by (simp add: float_mul_def to_double_def log_29_100 round_half_even_def Let_def)

lemma percent_29_100: "percent 29 100 = 28"
  by (simp add: percent_def div_29_100 float_100 mul_29_100 trunc_def)

lemma filled_29_100: "filled 29 100 = 5"
  by (simp add: filled_def bar_length_def true_div_def double_eval trunc_def)

lemma div_29_50: "true_div 29 50 = (5224175567749775, - 53)"
  by (simp add: true_div_def double_eval)

lemma log_29_50:
  "floor_log2 36761867406618650110129602560000 633825300114114700748351602688 = 5"
  by (simp add: floor_log2_def bitlen.simps Let_def)

lemma mul_29_50:
  "float_mul (5224175567749775, - 53) (7036874417766400, - 46) = (8162774324609023, - 47)"
  by (simp add: float_mul_def to_double_def log_29_50 round_half_even_def Let_def)

lemma percent_29_50: "percent 29 50 = 57"
  by (simp add: percent_def div_29_50 float_100 mul_29_50 trunc_def)

lemma div_5_8: "true_div 5 8 = (5629499534213120, - 53)"
  by (simp add: true_div_def double_eval)

lemma log_5_8:
  "floor_log2 39614081257132168796771975168000 633825300114114700748351602688 = 5"
  by (simp add: floor_log2_def bitlen.simps Let_def)

lemma mul_5_8:
  "float_mul (5629499534213120, - 53) (7036874417766400, - 46) = (8796093022208000, - 47)"
  by (simp add: float_mul_def to_double_def log_5_8 round_half_even_def Let_def)

lemma percent_5_8: "percent 5 8 = 62"
  by (simp add: percent_def div_5_8 float_100 mul_5_8 trunc_def)

lemma div_1_8: "true_div (Suc 0) 8 = (4503599627370496, - 55)"
  by (simp add: true_div_def double_eval)

lemma log_1_8:
  "floor_log2 31691265005705735037417580134400 2535301200456458802993406410752 = 3"
  by (simp add: floor_log2_def bitlen.simps Let_def)

lemma mul_1_8:
  "float_mul (4503599627370496, - 55) (7036874417766400, - 46) = (7036874417766400, - 49)"
  by (simp add: float_mul_def to_double_def log_1_8 round_half_even_def Let_def)

lemma percent_1_8: "percent (Suc 0) 8 = 12"
  by (simp add: percent_def div_1_8 float_100 mul_1_8 trunc_def)

lemma div_2_8: "true_div 2 8 = (4503599627370496, - 54)"
  by (simp add: true_div_def double_eval)

lemma log_2_8:
  "floor_log2 31691265005705735037417580134400 1267650600228229401496703205376 = 4"
  by (simp add: floor_log2_def bitlen.simps Let_def)

lemma mul_2_8:
  "float_mul (4503599627370496, - 54) (7036874417766400, - 46) = (7036874417766400, - 48)"
  by (simp add: float_mul_def to_double_def log_2_8 round_half_even_def Let_def)

lemma percent_2_8: "percent 2 8 = 25"
  by (simp add: percent_def div_2_8 float_100 mul_2_8 trunc_def)

lemma div_3_8: "true_div 3 8 = (6755399441055744, - 54)"
  by (simp add: true_div_def double_eval)

lemma log_3_8:
  "floor_log2 47536897508558602556126370201600 1267650600228229401496703205376 = 5"
  by (simp add: floor_log2_def bitlen.simps Let_def)

lemma mul_3_8:
  "float_mul (6755399441055744, - 54) (7036874417766400, - 46) = (5277655813324800, - 47)"
  by (simp add: float_mul_def to_double_def log_3_8 round_half_even_def Let_def)

lemma percent_3_8: "percent 3 8 = 37"
  by (simp add: percent_def div_3_8 float_100 mul_3_8 trunc_def)

lemma div_4_8: "true_div 4 8 = (4503599627370496, - 53)"
  by (simp add: true_div_def double_eval)

lemma log_4_8:
  "floor_log2 31691265005705735037417580134400 633825300114114700748351602688 = 5"
  by (simp add: floor_log2_def bitlen.simps Let_def)

lemma mul_4_8:
  "float_mul (4503599627370496, - 53) (7036874417766400, - 46) = (7036874417766400, - 47)"
  by (simp add: float_mul_def to_double_def log_4_8 round_half_even_def Let_def)

lemma percent_4_8: "percent 4 8 = 50"
  by (simp add: percent_def div_4_8 float_100 mul_4_8 trunc_def)

lemma div_6_8: "true_div 6 8 = (6755399441055744, - 53)"
  by (simp add: true_div_def double_eval)

lemma log_6_8:
  "floor_log2 47536897508558602556126370201600 633825300114114700748351602688 = 6"
  by (simp add: floor_log2_def bitlen.simps Let_def)

lemma mul_6_8:
  "float_mul (6755399441055744, - 53) (7036874417766400, - 46) = (5277655813324800, - 46)"
  by (simp add: float_mul_def to_double_def log_6_8 round_half_even_def Let_def)

lemma percent_6_8: "percent 6 8 = 75"
  by (simp add: percent_def div_6_8 float_100 mul_6_8 trunc_def)

lemma div_7_8: "true_div 7 8 = (7881299347898368, - 53)"
  by (simp add: true_div_def double_eval)

lemma log_7_8:
  "floor_log2 55459713759985036315480765235200 633825300114114700748351602688 = 6"
  by (simp add: floor_log2_def bitlen.simps Let_def)

lemma mul_7_8:
  "float_mul (7881299347898368, - 53) (7036874417766400, - 46) = (6157265115545600, - 46)"
  by (simp add: float_mul_def to_double_def log_7_8 round_half_even_def Let_def)

lemma percent_7_8: "percent 7 8 = 87"
  by (simp add: percent_def div_7_8 float_100 mul_7_8 trunc_def)

lemma div_8_8: "true_div 8 8 = (4503599627370496, - 52)"
  by (simp add: true_div_def double_eval)

lemma log_8_8:
  "floor_log2 31691265005705735037417580134400 316912650057057350374175801344 = 6"
  by (simp add: floor_log2_def bitlen.simps Let_def)

lemma mul_8_8:
  "float_mul (4503599627370496, - 52) (7036874417766400, - 46) = (7036874417766400, - 46)"
  by (simp add: float_mul_def to_double_def log_8_8 round_half_even_def Let_def)

lemma percent_8_8: "percent 8 8 = 100"
  by (simp add: percent_def div_8_8 float_100 mul_8_8 trunc_def)

text \<open>With \<^verbatim>\<open>total_steps=8\<close>, the value \<^verbatim>\<open>cmd_clean\<close> passes, every quotient is a dyadic
  fraction and every step shows the exact floor.\<close>

lemma percent_total_8:
  "map (\<lambda>s. percent s 8) [1, 2, 3, 4, 5, 6, 7, 8] = map (\<lambda>s. (100 * s) div 8) [1, 2, 3, 4, 5, 6, 7, 8]"
  by (simp add: percent_1_8 percent_2_8 percent_3_8 percent_4_8 percent_5_8 percent_6_8
        percent_7_8 percent_8_8)

lemma digit_chars:
  "char_of (48::nat) = CHR ''0''" "char_of (49::nat) = CHR ''1''" "char_of (50::nat) = CHR ''2''"
  "char_of (51::nat) = CHR ''3''" "char_of (52::nat) = CHR ''4''" "char_of (53::nat) = CHR ''5''"
  "char_of (54::nat) = CHR ''6''" "char_of (55::nat) = CHR ''7''" "char_of (56::nat) = CHR ''8''"
  "char_of (57::nat) = CHR ''9''"
  by code_simp+

lemma text_29_100:
  "progress_text action 29 100
     = action @ '': ['' @ concat (replicate 5 full_block) @ replicate 15 (CHR ''-'') @ ''] 28%''"
  by (simp add: progress_text_def filled_29_100 percent_29_100 bar_length_def str_int_def
        str_nat.simps digit_chars)

text \<open>
  C6. The percentage is \<^verbatim>\<open>int((step / total_steps) * 100)\<close> in double arithmetic. At step 29
  of 100 the quotient is the double below 0.29, the product rounds to the double below 29,
  and the update shows 28 where \<open>floor (100 * 29 / 100)\<close> is 29; at step 29 of 50 it shows
  57 for 58. At step 5 of 8 it is 62, as the exact value is.
\<close>

theorem percent_is_not_floor:
  "percent 29 100 = 28 \<and> (100 * 29) div 100 = (29::nat)
   \<and> percent 29 50 = 57 \<and> (100 * 29) div 50 = (58::nat)
   \<and> percent 5 8 = 62 \<and> (100 * 5) div 8 = (62::nat)
   \<and> edit_calls (progress_bar message 100 action speed) ! 28
        = action @ '': ['' @ concat (replicate 5 full_block) @ replicate 15 (CHR ''-'') @ ''] 28%''"
proof -
  have "edit_calls (progress_bar message 100 action speed) ! 28
      = progress_text action (nat ([1..100] ! 28)) 100"
    by (simp add: progress_bar_def progress_steps_events edit_calls_concat)
  also have "[1..100::int] ! 28 = 29"
    by (simp add: nth_upto)
  finally show ?thesis
    using percent_29_100 percent_29_50 percent_5_8 text_29_100 by simp
qed

section \<open>Uploads, the current document and the commands\<close>

lemma upload_path_eq:
  "upload_path uid now name = ''pdf_files/'' @ str_int uid @ ''_'' @ str_int now @ ''_'' @ name"
proof -
  obtain c cs where c: "str_int uid = c # cs"
    using str_int_nonempty [of uid] by (cases "str_int uid") auto
  then have "c \<noteq> CHR ''/''"
    using str_int_no_slash [of uid] by auto
  then show ?thesis
    by (simp add: upload_path_def os_path_join_def startswith_def endswith_def WORK_def c)
qed

lemma upload_path_no_pdf:
  assumes "\<not> sublist ''.pdf'' name"
  shows "\<not> sublist ''.pdf'' (upload_path uid now name)"
proof
  assume "sublist ''.pdf'' (upload_path uid now name)"
  then have "sublist ''.pdf'' ((''pdf_files/'' @ str_int uid @ ''_'' @ str_int now @ ''_'') @ name)"
    by (simp add: upload_path_eq)
  moreover have "CHR ''.'' \<notin> set (''pdf_files/'' @ str_int uid @ ''_'' @ str_int now @ ''_'')"
    using str_int_no_dot by simp
  ultimately have "sublist ''.pdf'' name"
    using sublist_skip [of "CHR ''.''" _ "''pdf''" name] by blast
  with assms show False by simp
qed

lemma upload_path_nonempty: "upload_path uid now name \<noteq> []"
  by (simp add: upload_path_eq)

lemma upload_accepted:
  assumes "message_document upd = Some doc" and "file_name doc = Some name"
    and "endswith (lower name) ''.pdf''" and "download doc = Some f"
  shows "fst (handle_pdf_upload now upd s) = Returned"
    and "last_pdf upd (snd (handle_pdf_upload now upd s))
           = Some (upload_path (from_user_id upd) now name)"
    and "files (world (snd (handle_pdf_upload now upd s)))
           = (files (world s))(upload_path (from_user_id upd) now name \<mapsto> f)"
    and "job_queue (snd (handle_pdf_upload now upd s)) = job_queue s"
  using assms
  by (simp_all add: handle_pdf_upload_def last_pdf_def reply_text_def Let_def)

lemma upload_present:
  assumes "message_document upd = Some doc" and "file_name doc = Some name"
    and "endswith (lower name) ''.pdf''" and "download doc = Some f"
  shows "\<not> no_document upd (snd (handle_pdf_upload now upd s))"
  using upload_accepted(2,3) [OF assms, of now s]
  by (simp add: no_document_def os_path_exists_def upload_path_nonempty)

lemma reply_text_simps:
  "files (world (reply_text upd r s)) = files (world s)"
  "user_data (world (reply_text upd r s)) = user_data (world s)"
  "last_pdf upd' (reply_text upd r s) = last_pdf upd' s"
  "replies (world (reply_text upd r s)) = replies (world s) @ [(from_user_id upd, r)]"
  "job_queue (reply_text upd r s) = job_queue s"
  by (simp_all add: reply_text_def last_pdf_def)

text \<open>
  C3. When the session has no current document (no upload is recorded under
  \<^verbatim>\<open>last_pdf\<close>, or the recorded path no longer exists), a command wrapped by
  \<^verbatim>\<open>require_pdf\<close> returns after exactly one reply, "Please upload a PDF first."; the result
  is the same whatever the wrapped body is, so the body is not entered, and the queue is as
  it was. \<^verbatim>\<open>cmd_clean\<close> is such a command.
\<close>

theorem no_document_no_job:
  assumes "last_pdf upd s = None
         \<or> (\<exists>pdf. last_pdf upd s = Some pdf \<and> \<not> os_path_exists (files (world s)) pdf)"
  shows "require_pdf func upd s = (Returned, reply_text upd (Text ''Please upload a PDF first.'') s)
       \<and> cmd_clean upd s = (Returned, reply_text upd (Text ''Please upload a PDF first.'') s)
       \<and> job_queue (snd (require_pdf func upd s)) = job_queue s
       \<and> replies (world (snd (require_pdf func upd s)))
           = replies (world s) @ [(from_user_id upd, Text ''Please upload a PDF first.'')]"
proof -
  have "no_document upd s"
    using assms by (auto simp: no_document_def)
  then show ?thesis
    by (simp add: require_pdf_def cmd_clean_def reply_text_def)
qed

text \<open>
  C4. After an accepted upload the session's \<^verbatim>\<open>last_pdf\<close> is the path that upload was
  saved under, and \<^verbatim>\<open>require_pdf\<close> lets the command through. After a second accepted
  upload by the same user it is the second upload's path: one key, overwritten.
\<close>

theorem latest_upload_is_current:
  assumes "message_document upd = Some doc" and "file_name doc = Some name"
    and "endswith (lower name) ''.pdf''" and "download doc = Some f"
    and "message_document upd_new = Some doc_new" and "file_name doc_new = Some name_new"
    and "endswith (lower name_new) ''.pdf''" and "download doc_new = Some f_new"
    and "from_user_id upd_new = from_user_id upd"
  shows "last_pdf upd (snd (handle_pdf_upload now upd s))
           = Some (upload_path (from_user_id upd) now name)
       \<and> require_pdf func upd (snd (handle_pdf_upload now upd s))
           = func upd (snd (handle_pdf_upload now upd s))
       \<and> last_pdf upd (snd (handle_pdf_upload now_new upd_new (snd (handle_pdf_upload now upd s))))
           = Some (upload_path (from_user_id upd) now_new name_new)
       \<and> require_pdf func upd (snd (handle_pdf_upload now_new upd_new (snd (handle_pdf_upload now upd s))))
           = func upd (snd (handle_pdf_upload now_new upd_new (snd (handle_pdf_upload now upd s))))"
proof -
  let ?s1 = "snd (handle_pdf_upload now upd s)"
  let ?s2 = "snd (handle_pdf_upload now_new upd_new ?s1)"
  have same: "last_pdf upd t = last_pdf upd_new t" "no_document upd t = no_document upd_new t" for t
    using assms(9) by (simp_all add: last_pdf_def no_document_def)
  have 1: "last_pdf upd ?s1 = Some (upload_path (from_user_id upd) now name)"
    using upload_accepted(2) [OF assms(1-4)] .
  have 2: "\<not> no_document upd ?s1"
    using upload_present [OF assms(1-4)] .
  have 3: "last_pdf upd ?s2 = Some (upload_path (from_user_id upd) now_new name_new)"
    using upload_accepted(2) [OF assms(5-8), of now_new ?s1] assms(9) same by simp
  have 4: "\<not> no_document upd ?s2"
    using upload_present [OF assms(5-8), of now_new ?s1] same by simp
  show ?thesis using 1 2 3 4 by (simp add: require_pdf_def)
qed

text \<open>
  C9. An upload whose file name, lowered, does not end with \<^verbatim>\<open>.pdf\<close> gets the reply
  "Please upload a PDF file." and nothing else happens: no file is written, and
  \<^verbatim>\<open>user_data\<close>, with it \<^verbatim>\<open>last_pdf\<close>, is unchanged.
\<close>

theorem non_pdf_upload_rejected:
  assumes "message_document upd = Some doc" and "file_name doc = Some name"
    and "\<not> endswith (lower name) ''.pdf''"
  shows "handle_pdf_upload now upd s
           = (Returned, reply_text upd (Text ''Please upload a PDF file.'') s)
       \<and> files (world (snd (handle_pdf_upload now upd s))) = files (world s)
       \<and> user_data (world (snd (handle_pdf_upload now upd s))) = user_data (world s)
       \<and> last_pdf upd (snd (handle_pdf_upload now upd s)) = last_pdf upd s
       \<and> replies (world (snd (handle_pdf_upload now upd s)))
           = replies (world s) @ [(from_user_id upd, Text ''Please upload a PDF file.'')]"
  using assms
  by (simp add: handle_pdf_upload_def reply_text_def last_pdf_def)

lemma lower_PDF: "lower ''.PDF'' = ''.pdf''"
  by code_simp

lemma endswith_iff: "endswith s sfx \<longleftrightarrow> (\<exists>stem. s = stem @ sfx)"
proof
  assume "endswith s sfx"
  then have "s = take (length s - length sfx) s @ sfx"
    unfolding endswith_def by (metis append_take_drop_id)
  then show "\<exists>stem. s = stem @ sfx" ..
next
  assume "\<exists>stem. s = stem @ sfx"
  then show "endswith s sfx" by (auto simp: endswith_def)
qed

lemma upper_PDF_accepted: "endswith name ''.PDF'' \<Longrightarrow> endswith (lower name) ''.pdf''"
proof -
  assume "endswith name ''.PDF''"
  then obtain stem where "name = stem @ ''.PDF''"
    using endswith_iff by blast
  then have "lower name = lower stem @ lower ''.PDF''"
    by (simp add: lower_def)
  then show ?thesis
    using lower_PDF endswith_iff by metis
qed

text \<open>
  The clean job when the output path is the input path: \<^verbatim>\<open>doc.save(output_pdf)\<close> is
  reached only with the document open, and then refuses to write. Whatever else happens,
  the job does not return, and the files are as they were.
\<close>

lemma remove_watermark_same_path:
  "remove_watermark isdir redact fs p p
     = (case fs p of
          None \<Rightarrow> Inl (FileNotFoundError p)
        | Some Blob \<Rightarrow> Inl (PdfReadError p)
        | Some (Pdf pages) \<Rightarrow> Inl (ValueError ''save to original must be incremental''))"
  by (simp add: remove_watermark_def fitz_open_def split: option.split content.split)

lemma clean_task_same_path:
  "clean_task sends isdir redact upd p p w
     = (if \<not> sends (Text ''Cleaning PDF...'') then (RaisedException ''TelegramError'', w)
        else (RaisedException
                (case files w p of
                   None \<Rightarrow> ''No such file or directory: '' @ p
                 | Some Blob \<Rightarrow> ''Cannot read PDF: '' @ p
                 | Some (Pdf pages) \<Rightarrow> ''save to original must be incremental''),
              w\<lparr>replies := replies w @ [(from_user_id upd, Text ''Cleaning PDF...'')]\<rparr>))"
  by (simp add: clean_task_def Let_def status_updates_telegram remove_watermark_same_path
        split: option.split content.split)

text \<open>
  C10. A file name that ends with \<^verbatim>\<open>.PDF\<close> and has no lowercase \<^verbatim>\<open>.pdf\<close> in it is
  accepted by the upload handler, and \<^verbatim>\<open>replace(".pdf", "_clean.pdf")\<close> leaves its saved
  path as it is: \<^verbatim>\<open>cmd_clean\<close> enqueues a job whose \<^verbatim>\<open>remove_watermark(pdf, out)\<close> has
  the uploaded file's path as input and as output. That job never returns and writes
  nothing, in whatever world the worker runs it: the files are as before, the uploaded
  file among them. When the first reply goes through and the upload is a PDF, the job ends
  with the error of \<^verbatim>\<open>doc.save\<close>, "save to original must be incremental".
\<close>

theorem clean_same_path_job_fails:
  assumes "message_document upd = Some doc" and "file_name doc = Some name"
    and "download doc = Some f"
    and "endswith name ''.PDF''" and "\<not> sublist ''.pdf'' name"
  shows "fst (handle_pdf_upload now upd s) = Returned
       \<and> last_pdf upd (snd (handle_pdf_upload now upd s))
           = Some (upload_path (from_user_id upd) now name)
       \<and> replace (upload_path (from_user_id upd) now name) ''.pdf'' ''_clean.pdf''
           = upload_path (from_user_id upd) now name
       \<and> cmd_clean upd (snd (handle_pdf_upload now upd s))
           = (Returned,
              enqueue (CleanTask upd (upload_path (from_user_id upd) now name)
                                     (upload_path (from_user_id upd) now name))
                (snd (handle_pdf_upload now upd s)))
       \<and> fst (run_job sends isdir redact
                (CleanTask upd (upload_path (from_user_id upd) now name)
                               (upload_path (from_user_id upd) now name)) w) \<noteq> Returned
       \<and> files (snd (run_job sends isdir redact
                (CleanTask upd (upload_path (from_user_id upd) now name)
                               (upload_path (from_user_id upd) now name)) w)) = files w
       \<and> files (world (snd (handle_pdf_upload now upd s)))
           (upload_path (from_user_id upd) now name) = Some f
       \<and> (sends (Text ''Cleaning PDF...'') \<and> f \<noteq> Blob \<longrightarrow>
            fst (run_job sends isdir redact
                  (CleanTask upd (upload_path (from_user_id upd) now name)
                                 (upload_path (from_user_id upd) now name))
                  (world (snd (handle_pdf_upload now upd s))))
              = RaisedException ''save to original must be incremental'')"
proof -
  let ?p = "upload_path (from_user_id upd) now name"
  let ?s1 = "snd (handle_pdf_upload now upd s)"
  have acc: "endswith (lower name) ''.pdf''"
    using assms(4) by (rule upper_PDF_accepted)
  have ret: "fst (handle_pdf_upload now upd s) = Returned"
    using upload_accepted(1) [OF assms(1,2) acc assms(3)] .
  have cur: "last_pdf upd ?s1 = Some ?p"
    using upload_accepted(2) [OF assms(1,2) acc assms(3)] .
  have here: "\<not> no_document upd ?s1"
    using upload_present [OF assms(1,2) acc assms(3)] .
  have same: "replace ?p ''.pdf'' ''_clean.pdf'' = ?p"
    using replace_absent [of "''.pdf''" ?p] upload_path_no_pdf [OF assms(5)] by simp
  have cmd: "cmd_clean upd ?s1 = (Returned, enqueue (CleanTask upd ?p ?p) ?s1)"
    using cur here same by (simp add: cmd_clean_def require_pdf_def cmd_clean_body_def)
  have saved: "files (world ?s1) ?p = Some f"
    using upload_accepted(3) [OF assms(1,2) acc assms(3), of now s] by simp
  have fails: "fst (run_job sends isdir redact (CleanTask upd ?p ?p) w) \<noteq> Returned"
    by (simp add: run_job_def clean_task_same_path)
  have kept: "files (snd (run_job sends isdir redact (CleanTask upd ?p ?p) w)) = files w"
    by (simp add: run_job_def clean_task_same_path)
  have err: "sends (Text ''Cleaning PDF...'') \<and> f \<noteq> Blob \<longrightarrow>
      fst (run_job sends isdir redact (CleanTask upd ?p ?p) (world ?s1))
        = RaisedException ''save to original must be incremental''"
    using saved by (simp add: run_job_def clean_task_same_path split: content.split)
  show ?thesis
    using ret cur same cmd saved fails kept err by (intro conjI)
qed

subsection \<open>At concrete inputs\<close>

lemma demo_upload_simps:
  "message_document (demo_upload name) = Some (demo_doc name)"
  "from_user_id (demo_upload name) = 42"
  "file_name (demo_doc name) = Some name"
  "download (demo_doc name) = Some (Pdf [1, 2, 3])"
  by (simp_all add: demo_upload_def demo_doc_def)

lemma demo_bot_simps:
  "job_queue demo_bot = []" "replies (world demo_bot) = []"
  "last_pdf upd demo_bot = None" "files (world demo_bot) = Map.empty"
  by (simp_all add: demo_bot_def demo_world_def startup_def last_pdf_def)

lemma lower_a_pdf: "endswith (lower ''a.pdf'') ''.pdf''" by code_simp
lemma lower_b_pdf: "endswith (lower ''b.Pdf'') ''.pdf''" by code_simp
lemma lower_notes: "\<not> endswith (lower ''notes.txt'') ''.pdf''" by code_simp
lemma report_upper: "endswith ''REPORT.PDF'' ''.PDF''" by code_simp
lemma report_no_pdf: "\<not> sublist ''.pdf'' ''REPORT.PDF''" by code_simp
lemma report_path: "upload_path 42 1700 ''REPORT.PDF'' = ''pdf_files/42_1700_REPORT.PDF''"
  by code_simp

lemma demo_deleted_simps:
  "last_pdf (demo_upload name) demo_deleted = Some (upload_path 42 1700 ''a.pdf'')"
  "files (world demo_deleted) = Map.empty"
  "job_queue demo_deleted = []"
  using upload_accepted(2,4) [OF demo_upload_simps(1) demo_upload_simps(3) lower_a_pdf
      demo_upload_simps(4), of 1700 demo_bot]
  by (simp_all add: demo_deleted_def Let_def last_pdf_def demo_upload_simps demo_bot_simps)

theorem no_document_no_job_witness:
  "last_pdf (demo_upload ''a.pdf'') demo_bot = None
   \<and> fst (require_pdf entered (demo_upload ''a.pdf'') demo_bot) = Returned
   \<and> job_queue (snd (require_pdf entered (demo_upload ''a.pdf'') demo_bot)) = []
   \<and> replies (world (snd (require_pdf entered (demo_upload ''a.pdf'') demo_bot)))
        = [(42, Text ''Please upload a PDF first.'')]
   \<and> last_pdf (demo_upload ''a.pdf'') demo_deleted = Some (upload_path 42 1700 ''a.pdf'')
   \<and> \<not> os_path_exists (files (world demo_deleted)) (upload_path 42 1700 ''a.pdf'')
   \<and> fst (cmd_clean (demo_upload ''a.pdf'') demo_deleted) = Returned
   \<and> job_queue (snd (cmd_clean (demo_upload ''a.pdf'') demo_deleted)) = []"
  using no_document_no_job [of "demo_upload ''a.pdf''" demo_bot entered]
    no_document_no_job [of "demo_upload ''a.pdf''" demo_deleted entered]
  by (simp add: demo_bot_simps demo_deleted_simps demo_upload_simps os_path_exists_def
        reply_text_def)

theorem latest_upload_is_current_witness:
  "endswith (lower ''a.pdf'') ''.pdf'' \<and> endswith (lower ''b.Pdf'') ''.pdf''
   \<and> last_pdf (demo_upload ''a.pdf'') (snd (handle_pdf_upload 1700 (demo_upload ''a.pdf'') demo_bot))
        = Some (upload_path 42 1700 ''a.pdf'')
   \<and> last_pdf (demo_upload ''a.pdf'')
        (snd (handle_pdf_upload 1760 (demo_upload ''b.Pdf'')
           (snd (handle_pdf_upload 1700 (demo_upload ''a.pdf'') demo_bot))))
        = Some (upload_path 42 1760 ''b.Pdf'')
   \<and> fst (require_pdf entered (demo_upload ''a.pdf'')
        (snd (handle_pdf_upload 1760 (demo_upload ''b.Pdf'')
           (snd (handle_pdf_upload 1700 (demo_upload ''a.pdf'') demo_bot)))))
        = RaisedException ''entered''"
  using latest_upload_is_current [where upd = "demo_upload ''a.pdf''" and doc = "demo_doc ''a.pdf''"
      and name = "''a.pdf''" and f = "Pdf [1, 2, 3]" and upd_new = "demo_upload ''b.Pdf''"
      and doc_new = "demo_doc ''b.Pdf''" and name_new = "''b.Pdf''" and f_new = "Pdf [1, 2, 3]"
      and now = 1700 and s = demo_bot and func = entered and now_new = 1760]
    lower_a_pdf lower_b_pdf
  by (simp add: demo_upload_simps entered_def)

theorem non_pdf_upload_rejected_witness:
  "\<not> endswith (lower ''notes.txt'') ''.pdf''
   \<and> fst (handle_pdf_upload 1700 (demo_upload ''notes.txt'') demo_bot) = Returned
   \<and> files (world (snd (handle_pdf_upload 1700 (demo_upload ''notes.txt'') demo_bot))) = Map.empty
   \<and> last_pdf (demo_upload ''notes.txt'')
        (snd (handle_pdf_upload 1700 (demo_upload ''notes.txt'') demo_bot)) = None
   \<and> replies (world (snd (handle_pdf_upload 1700 (demo_upload ''notes.txt'') demo_bot)))
        = [(42, Text ''Please upload a PDF file.'')]"
  using non_pdf_upload_rejected [OF demo_upload_simps(1) demo_upload_simps(3) lower_notes,
      of 1700 demo_bot] lower_notes
  by (simp add: demo_upload_simps demo_bot_simps reply_text_simps)

lemma inner_upper: "endswith ''a.pdf.PDF'' ''.PDF''" by code_simp
lemma inner_lower: "endswith (lower ''a.pdf.PDF'') ''.pdf''" by code_simp
lemma inner_path: "upload_path 42 1700 ''a.pdf.PDF'' = ''pdf_files/42_1700_a.pdf.PDF''"
  by code_simp
lemma inner_replaced:
  "replace ''pdf_files/42_1700_a.pdf.PDF'' ''.pdf'' ''_clean.pdf''
     = ''pdf_files/42_1700_a_clean.pdf.PDF''"
  by code_simp
lemma inner_open: "open_wb work_exists ''pdf_files/42_1700_a_clean.pdf.PDF'' = None"
  by code_simp
lemma report_replaced:
  "replace ''pdf_files/42_1700_REPORT.PDF'' ''.pdf'' ''_clean.pdf''
     = ''pdf_files/42_1700_REPORT.PDF''"
  by code_simp

lemma report_bot_simps:
  "files (world report_bot) = [''pdf_files/42_1700_REPORT.PDF'' \<mapsto> Pdf [1, 2, 3]]"
  "last_pdf (demo_upload name) report_bot = Some ''pdf_files/42_1700_REPORT.PDF''"
  "job_queue report_bot = []"
  using upload_accepted(2,3,4) [OF demo_upload_simps(1) demo_upload_simps(3)
      upper_PDF_accepted [OF report_upper] demo_upload_simps(4), of 1700 demo_bot]
  by (simp_all add: report_bot_def report_path demo_bot_simps demo_upload_simps last_pdf_def)

lemma inner_bot_simps:
  "files (world inner_bot) = [''pdf_files/42_1700_a.pdf.PDF'' \<mapsto> Pdf [1, 2, 3]]"
  "last_pdf (demo_upload name) inner_bot = Some ''pdf_files/42_1700_a.pdf.PDF''"
  "job_queue inner_bot = []"
  using upload_accepted(2,3,4) [OF demo_upload_simps(1) demo_upload_simps(3)
      inner_lower demo_upload_simps(4), of 1700 demo_bot]
  by (simp_all add: inner_bot_def inner_path demo_bot_simps demo_upload_simps last_pdf_def)

theorem clean_same_path_job_fails_witness:
  "endswith ''REPORT.PDF'' ''.PDF'' \<and> \<not> sublist ''.pdf'' ''REPORT.PDF''
   \<and> fst (handle_pdf_upload 1700 (demo_upload ''REPORT.PDF'') demo_bot) = Returned
   \<and> job_queue (snd (cmd_clean (demo_upload ''REPORT.PDF'') report_bot))
       = [CleanTask (demo_upload ''REPORT.PDF'') ''pdf_files/42_1700_REPORT.PDF''
            ''pdf_files/42_1700_REPORT.PDF'']
   \<and> fst (run_job all_sent work_exists whiten
        (CleanTask (demo_upload ''REPORT.PDF'') ''pdf_files/42_1700_REPORT.PDF''
           ''pdf_files/42_1700_REPORT.PDF'') (world report_bot))
       = RaisedException ''save to original must be incremental''
   \<and> files (snd (run_job all_sent work_exists whiten
        (CleanTask (demo_upload ''REPORT.PDF'') ''pdf_files/42_1700_REPORT.PDF''
           ''pdf_files/42_1700_REPORT.PDF'') (world report_bot)))
       = [''pdf_files/42_1700_REPORT.PDF'' \<mapsto> Pdf [1, 2, 3]]"
  using clean_same_path_job_fails [OF demo_upload_simps(1) demo_upload_simps(3)
      demo_upload_simps(4) report_upper report_no_pdf, of 1700 demo_bot all_sent work_exists
      whiten "world report_bot"]
    report_upper report_no_pdf
  by (simp add: report_path report_bot_simps demo_upload_simps enqueue_def all_sent_def
        report_bot_def [symmetric])

text \<open>
  Not every accepted name that ends with \<^verbatim>\<open>.PDF\<close> gives the job one path, and where it
  does, nothing is written over the upload. As \<^verbatim>\<open>a.pdf.PDF\<close> the upload is accepted and
  the replacement changes the path: the job returns, the cleaned pages are under
  \<^verbatim>\<open>pdf_files/42_1700_a_clean.pdf.PDF\<close> and the upload is as it was. As \<^verbatim>\<open>REPORT.PDF\<close> the
  two paths are one, \<^verbatim>\<open>remove_watermark\<close> raises, the job ends with that error, and the
  upload still holds its three pages, not the cleaned ones.
\<close>

theorem clean_overwrites_upload_counterexample:
  "endswith ''a.pdf.PDF'' ''.PDF''
   \<and> fst (handle_pdf_upload 1700 (demo_upload ''a.pdf.PDF'') demo_bot) = Returned
   \<and> job_queue (snd (cmd_clean (demo_upload ''a.pdf.PDF'') inner_bot))
       = [CleanTask (demo_upload ''a.pdf.PDF'') ''pdf_files/42_1700_a.pdf.PDF''
            ''pdf_files/42_1700_a_clean.pdf.PDF'']
   \<and> ''pdf_files/42_1700_a_clean.pdf.PDF'' \<noteq> ''pdf_files/42_1700_a.pdf.PDF''
   \<and> fst (run_job all_sent work_exists whiten
        (CleanTask (demo_upload ''a.pdf.PDF'') ''pdf_files/42_1700_a.pdf.PDF''
           ''pdf_files/42_1700_a_clean.pdf.PDF'') (world inner_bot)) = Returned
   \<and> files (snd (run_job all_sent work_exists whiten
        (CleanTask (demo_upload ''a.pdf.PDF'') ''pdf_files/42_1700_a.pdf.PDF''
           ''pdf_files/42_1700_a_clean.pdf.PDF'') (world inner_bot)))
       = [''pdf_files/42_1700_a.pdf.PDF'' \<mapsto> Pdf [1, 2, 3],
          ''pdf_files/42_1700_a_clean.pdf.PDF'' \<mapsto> Pdf [0, 0, 0]]
   \<and> endswith ''REPORT.PDF'' ''.PDF''
   \<and> fst (handle_pdf_upload 1700 (demo_upload ''REPORT.PDF'') demo_bot) = Returned
   \<and> job_queue (snd (cmd_clean (demo_upload ''REPORT.PDF'') report_bot))
       = [CleanTask (demo_upload ''REPORT.PDF'') ''pdf_files/42_1700_REPORT.PDF''
            ''pdf_files/42_1700_REPORT.PDF'']
   \<and> remove_watermark work_exists whiten (files (world report_bot))
        ''pdf_files/42_1700_REPORT.PDF'' ''pdf_files/42_1700_REPORT.PDF''
       = Inl (ValueError ''save to original must be incremental'')
   \<and> fst (run_job all_sent work_exists whiten
        (CleanTask (demo_upload ''REPORT.PDF'') ''pdf_files/42_1700_REPORT.PDF''
           ''pdf_files/42_1700_REPORT.PDF'') (world report_bot))
       = RaisedException ''save to original must be incremental''
   \<and> files (snd (run_job all_sent work_exists whiten
        (CleanTask (demo_upload ''REPORT.PDF'') ''pdf_files/42_1700_REPORT.PDF''
           ''pdf_files/42_1700_REPORT.PDF'') (world report_bot)))
       = [''pdf_files/42_1700_REPORT.PDF'' \<mapsto> Pdf [1, 2, 3]]"
proof -
  have a1: "fst (handle_pdf_upload 1700 (demo_upload ''a.pdf.PDF'') demo_bot) = Returned"
    using upload_accepted(1) [OF demo_upload_simps(1) demo_upload_simps(3) inner_lower
        demo_upload_simps(4), of 1700 demo_bot] .
  have a2: "job_queue (snd (cmd_clean (demo_upload ''a.pdf.PDF'') inner_bot))
      = [CleanTask (demo_upload ''a.pdf.PDF'') ''pdf_files/42_1700_a.pdf.PDF''
           ''pdf_files/42_1700_a_clean.pdf.PDF'']"
    by (simp add: cmd_clean_def require_pdf_def no_document_def cmd_clean_body_def
          inner_bot_simps os_path_exists_def inner_replaced enqueue_def)
  have a3: "run_job all_sent work_exists whiten
        (CleanTask (demo_upload ''a.pdf.PDF'') ''pdf_files/42_1700_a.pdf.PDF''
           ''pdf_files/42_1700_a_clean.pdf.PDF'') (world inner_bot)
      = (Returned, (world inner_bot)
           \<lparr>replies := replies (world inner_bot) @
              [(42, Text ''Cleaning PDF...''),
               (42, Edited (check_mark @ '' Cleaned! Sending file...'')),
               (42, Document ''pdf_files/42_1700_a_clean.pdf.PDF'')],
            files := [''pdf_files/42_1700_a.pdf.PDF'' \<mapsto> Pdf [1, 2, 3],
                      ''pdf_files/42_1700_a_clean.pdf.PDF'' \<mapsto> Pdf [0, 0, 0]]\<rparr>)"
    by (simp add: run_job_def clean_task_def Let_def status_updates_telegram all_sent_def
          remove_watermark_def fitz_open_def inner_bot_simps inner_open whiten_def
          demo_upload_simps)
  have r1: "fst (handle_pdf_upload 1700 (demo_upload ''REPORT.PDF'') demo_bot) = Returned"
    using upload_accepted(1) [OF demo_upload_simps(1) demo_upload_simps(3)
        upper_PDF_accepted [OF report_upper] demo_upload_simps(4), of 1700 demo_bot] .
  have r2: "job_queue (snd (cmd_clean (demo_upload ''REPORT.PDF'') report_bot))
      = [CleanTask (demo_upload ''REPORT.PDF'') ''pdf_files/42_1700_REPORT.PDF''
           ''pdf_files/42_1700_REPORT.PDF'']"
    by (simp add: cmd_clean_def require_pdf_def no_document_def cmd_clean_body_def
          report_bot_simps os_path_exists_def report_replaced enqueue_def)
  have r3: "remove_watermark work_exists whiten (files (world report_bot))
        ''pdf_files/42_1700_REPORT.PDF'' ''pdf_files/42_1700_REPORT.PDF''
      = Inl (ValueError ''save to original must be incremental'')"
    by (simp add: remove_watermark_same_path report_bot_simps)
  have r4: "run_job all_sent work_exists whiten
        (CleanTask (demo_upload ''REPORT.PDF'') ''pdf_files/42_1700_REPORT.PDF''
           ''pdf_files/42_1700_REPORT.PDF'') (world report_bot)
      = (RaisedException ''save to original must be incremental'',
         (world report_bot)\<lparr>replies := replies (world report_bot) @ [(42, Text ''Cleaning PDF...'')]\<rparr>)"
    by (simp add: run_job_def clean_task_same_path all_sent_def report_bot_simps
          demo_upload_simps)
  show ?thesis
    using inner_upper a1 a2 a3 report_upper r1 r2 r3 r4
    by (simp add: inner_bot_simps report_bot_simps)
qed

section \<open>Splitting\<close>

lemma str_nat_length: "n < 10 \<longleftrightarrow> length (str_nat n) = 1"
proof (cases "n < 10")
  case True
  then show ?thesis by (subst str_nat.simps) simp
next
  case False
  have "str_nat (n div 10) \<noteq> []" by (rule str_nat_nonempty)
  then have "length (str_nat (n div 10)) \<noteq> 0" by simp
  then show ?thesis using False by (subst str_nat.simps) simp
qed

lemma digit_inj: "a < 10 \<Longrightarrow> b < 10 \<Longrightarrow> char_of (48 + a :: nat) = (char_of (48 + b) :: char) \<Longrightarrow> a = b"
proof -
  assume a: "a < 10" "b < 10" and "char_of (48 + a) = (char_of (48 + b) :: char)"
  then have "(of_char (char_of (48 + a) :: char) :: nat) = of_char (char_of (48 + b) :: char)"
    by simp
  then have "(48 + a) mod 256 = (48 + b) mod 256" by (simp add: of_char_of)
  with a show "a = b" by simp
qed

lemma str_nat_inj: "str_nat m = str_nat n \<Longrightarrow> m = n"
proof (induction m arbitrary: n rule: str_nat.induct)
  case (1 m)
  show ?case
  proof (cases "m < 10")
    case True
    then have "length (str_nat n) = 1" using "1.prems" str_nat_length [of m] by simp
    then have n: "n < 10" using str_nat_length [of n] by simp
    have "str_nat m = [char_of (48 + m)]" using True by (subst str_nat.simps) simp
    moreover have "str_nat n = [char_of (48 + n)]" using n by (subst str_nat.simps) simp
    ultimately show ?thesis using "1.prems" digit_inj [OF True n] by simp
  next
    case False
    then have "length (str_nat n) \<noteq> 1" using "1.prems" str_nat_length [of m] by simp
    then have n: "\<not> n < 10" using str_nat_length [of n] by simp
    have m': "str_nat m = str_nat (m div 10) @ [char_of (48 + m mod 10)]"
      using False by (subst str_nat.simps) simp
    have n': "str_nat n = str_nat (n div 10) @ [char_of (48 + n mod 10)]"
      using n by (subst str_nat.simps) simp
    from m' n' "1.prems" have eq: "str_nat (m div 10) = str_nat (n div 10)"
      and last: "(char_of (48 + m mod 10) :: char) = char_of (48 + n mod 10)"
      by simp_all
    have "m div 10 = n div 10" using "1.IH" [OF False eq] .
    moreover have "m mod 10 = n mod 10" using digit_inj [of "m mod 10" "n mod 10"] last by simp
    ultimately show ?thesis by (metis div_mult_mod_eq)
  qed
qed

lemma page_path_eq:
  "page_path out_folder i
     = (if out_folder = [] \<or> endswith out_folder ''/'' then out_folder else out_folder @ ''/'')
       @ ''page_'' @ str_nat i @ ''.pdf''"
  by (simp add: page_path_def os_path_join_def startswith_def str_int_def)

lemma page_path_inj: "page_path out_folder i = page_path out_folder j \<Longrightarrow> i = j"
  by (simp add: page_path_eq str_nat_inj)

text \<open>The loop writes only page files, each with its page, and returns their paths in order
  when every one of them can be opened.\<close>

lemma split_pages_untouched:
  "\<forall>k. i \<le> k \<and> k < i + length pages \<longrightarrow> q \<noteq> page_path out_folder k \<Longrightarrow>
   fst (split_pages isdir fs out_folder i pages out_paths) q = fs q"
proof (induction pages arbitrary: fs i out_paths)
  case Nil
  show ?case by simp
next
  case (Cons page rest)
  have here: "q \<noteq> page_path out_folder i" using Cons.prems by simp
  have later: "\<forall>k. Suc i \<le> k \<and> k < Suc i + length rest \<longrightarrow> q \<noteq> page_path out_folder k"
    using Cons.prems by simp
  show ?case
    using Cons.IH [OF later] here by (simp add: Let_def split: option.splits)
qed

lemma split_pages_paths:
  "list_all (\<lambda>k. open_wb isdir (page_path out_folder k) = None) [i..<i + length pages] \<Longrightarrow>
   snd (split_pages isdir fs out_folder i pages out_paths)
     = Inr (out_paths @ map (page_path out_folder) [i..<i + length pages])"
proof (induction pages arbitrary: fs i out_paths)
  case Nil
  show ?case by simp
next
  case (Cons page rest)
  have range: "[i..<i + length (page # rest)] = i # [Suc i..<Suc i + length rest]"
    by (simp add: upt_conv_Cons del: upt_Suc)
  then have "open_wb isdir (page_path out_folder i) = None"
    and "list_all (\<lambda>k. open_wb isdir (page_path out_folder k) = None) [Suc i..<Suc i + length rest]"
    using Cons.prems by (simp_all del: upt_Suc)
  then show ?case
    using Cons.IH range by (simp add: Let_def del: upt_Suc)
qed

lemma split_pages_contents:
  "list_all (\<lambda>k. open_wb isdir (page_path out_folder k) = None) [i..<i + length pages] \<Longrightarrow>
   k < length pages \<Longrightarrow>
   fst (split_pages isdir fs out_folder i pages out_paths) (page_path out_folder (i + k))
     = Some (Pdf [pages ! k])"
proof (induction pages arbitrary: fs i out_paths k)
  case Nil
  then show ?case by simp
next
  case (Cons page rest)
  let ?fs = "fs(page_path out_folder i \<mapsto> Pdf [page])"
  have range: "[i..<i + length (page # rest)] = i # [Suc i..<Suc i + length rest]"
    by (simp add: upt_conv_Cons del: upt_Suc)
  then have ok: "open_wb isdir (page_path out_folder i) = None"
    and oks: "list_all (\<lambda>k. open_wb isdir (page_path out_folder k) = None)
                [Suc i..<Suc i + length rest]"
    using Cons.prems(1) by (simp_all del: upt_Suc)
  have unfold: "split_pages isdir fs out_folder i (page # rest) out_paths
      = split_pages isdir ?fs out_folder (Suc i) rest (out_paths @ [page_path out_folder i])"
    using ok by (simp add: Let_def)
  show ?case
  proof (cases k)
    case 0
    have "\<forall>j. Suc i \<le> j \<and> j < Suc i + length rest \<longrightarrow> page_path out_folder i \<noteq> page_path out_folder j"
      using page_path_inj by fastforce
    then have "fst (split_pages isdir ?fs out_folder (Suc i) rest (out_paths @ [page_path out_folder i]))
        (page_path out_folder i) = ?fs (page_path out_folder i)"
      by (rule split_pages_untouched)
    then show ?thesis using 0 unfold by simp
  next
    case (Suc k')
    then have "k' < length rest" using Cons.prems(2) by simp
    then have "fst (split_pages isdir ?fs out_folder (Suc i) rest (out_paths @ [page_path out_folder i]))
        (page_path out_folder (Suc i + k')) = Some (Pdf [rest ! k'])"
      using Cons.IH [OF oks] by simp
    then show ?thesis using Suc unfold by simp
  qed
qed

text \<open>An existing folder, named without a trailing slash, takes every page file that is
  not itself a folder.\<close>

lemma dirname_page_path:
  assumes "out_folder \<noteq> []" and "last out_folder \<noteq> CHR ''/''"
  shows "os_path_dirname (page_path out_folder i) = out_folder"
proof -
  let ?name = "''page_'' @ str_nat i @ ''.pdf''"
  have ends: "\<not> endswith out_folder ''/''"
  proof
    assume "endswith out_folder ''/''"
    then have d: "drop (length out_folder - 1) out_folder = ''/''"
      by (simp add: endswith_def)
    have "length out_folder - 1 < length out_folder"
      using assms(1) by (cases out_folder) simp_all
    then have "last (drop (length out_folder - 1) out_folder) = last out_folder"
      by (rule last_drop)
    then show False using d assms(2) by simp
  qed
  have path: "page_path out_folder i = out_folder @ CHR ''/'' # ?name"
    using assms(1) ends by (simp add: page_path_eq)
  have "CHR ''/'' \<notin> set (str_nat i)"
    using str_nat_chars [of 47 i] by (simp add: slash_char)
  then have noslash: "\<forall>c \<in> set (rev ?name). c \<noteq> CHR ''/''"
    by auto
  have "dropWhile (\<lambda>c. c \<noteq> CHR ''/'') (rev ?name @ CHR ''/'' # rev out_folder)
      = dropWhile (\<lambda>c. c \<noteq> CHR ''/'') (CHR ''/'' # rev out_folder)"
    using noslash by (intro dropWhile_append2) blast
  then have "dropWhile (\<lambda>c. c \<noteq> CHR ''/'') (rev (page_path out_folder i))
      = CHR ''/'' # rev out_folder"
    by (simp only: path rev_append rev.simps dropWhile.simps append_assoc append_Cons append_Nil)
       simp
  then have head: "rev (dropWhile (\<lambda>c. c \<noteq> CHR ''/'') (rev (page_path out_folder i)))
      = out_folder @ ''/''"
    by simp
  have "last out_folder \<in> set out_folder"
    using assms(1) by simp
  then have notall: "\<not> list_all (\<lambda>c. c = CHR ''/'') (out_folder @ ''/'')"
    using assms(2) by (auto simp: list_all_iff)
  have "rev out_folder = last out_folder # rev (butlast out_folder)"
    using assms(1) by (metis append_butlast_last_id rev.simps(2) rev_append rev_rev_ident
      append_Nil rev.simps(1) append_Cons)
  then obtain c cs where rc: "rev out_folder = c # cs" and c: "c \<noteq> CHR ''/''"
    using assms(2) by blast
  have strip: "dropWhile (\<lambda>c. c = CHR ''/'') (rev out_folder) = rev out_folder"
    by (simp add: rc c)
  have "os_path_dirname (page_path out_folder i)
      = rev (dropWhile (\<lambda>c. c = CHR ''/'') (rev (out_folder @ ''/'')))"
    using head notall by (simp add: os_path_dirname_def Let_def del: rev_append)
  also have "\<dots> = out_folder"
    using strip by simp
  finally show ?thesis .
qed


lemma folder_takes_pages:
  assumes "isdir out_folder" and "out_folder \<noteq> []" and "last out_folder \<noteq> CHR ''/''"
    and "\<not> isdir (page_path out_folder i)"
  shows "open_wb isdir (page_path out_folder i) = None"
proof -
  have "page_path out_folder i \<noteq> []" by (simp add: page_path_eq)
  then show ?thesis
    using assms(1,4) dirname_page_path [OF assms(2,3), of i] by (simp add: open_wb_def)
qed

text \<open>
  C8. For an input file that is a PDF with pages \<open>pages\<close>,
  and an output folder in which every page file can be opened for writing, \<^verbatim>\<open>split_pdf\<close>
  returns the paths \<^verbatim>\<open>page_1.pdf\<close> to \<^verbatim>\<open>page_N.pdf\<close> under the output folder, in that order,
  \<open>N\<close> being the number of pages; the file at the \<open>k\<close>-th path holds the \<open>k\<close>-th page; and
  \<^verbatim>\<open>get_page_count\<close> returns \<open>N\<close>.
\<close>

theorem split_one_path_per_page:
  assumes "fs input_pdf = Some (Pdf pages)"
    and "list_all (\<lambda>i. open_wb isdir (page_path out_folder i) = None) [1..<Suc (length pages)]"
  shows "snd (split_pdf isdir fs input_pdf out_folder)
           = Inr (map (page_path out_folder) [1..<Suc (length pages)])
       \<and> length (map (page_path out_folder) [1..<Suc (length pages)]) = length pages
       \<and> (\<forall>k < length pages.
            fst (split_pdf isdir fs input_pdf out_folder) (page_path out_folder (Suc k))
              = Some (Pdf [pages ! k]))
       \<and> get_page_count fs input_pdf = Some (length pages)"
proof -
  have split: "split_pdf isdir fs input_pdf out_folder = split_pages isdir fs out_folder 1 pages []"
    using assms(1) by (simp add: split_pdf_def PdfReader_def)
  have ok: "list_all (\<lambda>i. open_wb isdir (page_path out_folder i) = None) [1..<1 + length pages]"
    using assms(2) by (simp del: upt_Suc)
  have paths: "snd (split_pdf isdir fs input_pdf out_folder)
      = Inr (map (page_path out_folder) [1..<Suc (length pages)])"
    using split_pages_paths [OF ok, of fs "[]"] split by (simp del: upt_Suc)
  have contents: "\<forall>k < length pages.
      fst (split_pdf isdir fs input_pdf out_folder) (page_path out_folder (Suc k))
        = Some (Pdf [pages ! k])"
    using split_pages_contents [OF ok, of _ fs "[]"] split by simp
  have count: "get_page_count fs input_pdf = Some (length pages)"
    using assms(1) by (simp add: get_page_count_def PdfReader_def)
  show ?thesis
    using paths contents count by (simp del: upt_Suc)
qed

lemma demo_paths_3:
  "map (page_path ''out'') [1..<Suc 3]
     = [''out/page_1.pdf'', ''out/page_2.pdf'', ''out/page_3.pdf'']"
  by code_simp

lemma demo_paths:
  "map (page_path ''out'') [1..<Suc (length [7::nat, 8, 9])]
     = [''out/page_1.pdf'', ''out/page_2.pdf'', ''out/page_3.pdf'']"
proof -
  have "Suc (length [7::nat, 8, 9]) = Suc 3" by simp
  then show ?thesis using demo_paths_3 by metis
qed

lemma demo_page_1: "page_path ''out'' 1 = ''out/page_1.pdf''"
  by code_simp

lemma demo_page_2: "page_path ''out'' (Suc (Suc 0)) = ''out/page_2.pdf''"
  by code_simp

lemma out_takes_pages:
  "list_all (\<lambda>i. open_wb out_exists (page_path ''out'' i) = None) [1..<Suc (length [7::nat, 8, 9])]"
proof -
  have "\<not> out_exists (page_path ''out'' i)" for i
    by (simp add: out_exists_def page_path_eq endswith_def)
  then have "open_wb out_exists (page_path ''out'' i) = None" for i
    using folder_takes_pages [of out_exists "''out''" i] by (simp add: out_exists_def)
  then show ?thesis by (simp add: list_all_iff)
qed

theorem split_one_path_per_page_witness:
  "demo_fs ''in.pdf'' = Some (Pdf [7, 8, 9])
   \<and> list_all (\<lambda>i. open_wb out_exists (page_path ''out'' i) = None) [1..<Suc (length [7::nat, 8, 9])]
   \<and> snd (split_pdf out_exists demo_fs ''in.pdf'' ''out'')
        = Inr [''out/page_1.pdf'', ''out/page_2.pdf'', ''out/page_3.pdf'']
   \<and> fst (split_pdf out_exists demo_fs ''in.pdf'' ''out'') ''out/page_2.pdf'' = Some (Pdf [8])
   \<and> get_page_count demo_fs ''in.pdf'' = Some 3"
proof -
  have a: "demo_fs ''in.pdf'' = Some (Pdf [7, 8, 9])"
    by (simp add: demo_fs_def)
  note t = split_one_path_per_page [where fs = demo_fs and input_pdf = "''in.pdf''"
      and pages = "[7, 8, 9]" and out_folder = "''out''" and isdir = out_exists,
      OF a out_takes_pages]
  have paths: "snd (split_pdf out_exists demo_fs ''in.pdf'' ''out'')
      = Inr [''out/page_1.pdf'', ''out/page_2.pdf'', ''out/page_3.pdf'']"
    using t demo_paths by (simp only:)
  have "(1::nat) < length [7::nat, 8, 9]" by simp
  with t have "fst (split_pdf out_exists demo_fs ''in.pdf'' ''out'') (page_path ''out'' (Suc 1))
      = Some (Pdf [[7::nat, 8, 9] ! 1])"
    by blast
  then have second: "fst (split_pdf out_exists demo_fs ''in.pdf'' ''out'') ''out/page_2.pdf''
      = Some (Pdf [8])"
    using demo_page_2 by simp
  have cnt: "get_page_count demo_fs ''in.pdf'' = Some 3"
    using t by simp
  show ?thesis
    using a out_takes_pages paths second cnt by (intro conjI)
qed

text \<open>
  The condition on the output folder is needed: \<^verbatim>\<open>split_pdf\<close> creates no folder. When the
  folder does not exist it raises at the first \<^verbatim>\<open>open\<close>, returns no path and writes no file.
\<close>

lemma split_missing_folder_fails:
  "demo_fs ''in.pdf'' = Some (Pdf [7, 8, 9])
   \<and> get_page_count demo_fs ''in.pdf'' = Some 3
   \<and> snd (split_pdf no_folder demo_fs ''in.pdf'' ''out'')
        = Inl (FileNotFoundError ''out/page_1.pdf'')
   \<and> fst (split_pdf no_folder demo_fs ''in.pdf'' ''out'') = demo_fs"
proof -
  have a: "demo_fs ''in.pdf'' = Some (Pdf [7, 8, 9])"
    by (simp add: demo_fs_def)
  have d: "os_path_dirname ''out/page_1.pdf'' = ''out''"
    by code_simp
  have o: "open_wb no_folder ''out/page_1.pdf'' = Some (FileNotFoundError ''out/page_1.pdf'')"
    by (simp add: open_wb_def no_folder_def d)
  have s: "split_pdf no_folder demo_fs ''in.pdf'' ''out''
      = (demo_fs, Inl (FileNotFoundError ''out/page_1.pdf''))"
    using a o demo_page_1 by (simp add: split_pdf_def PdfReader_def Let_def)
  show ?thesis
    using a s by (simp add: get_page_count_def PdfReader_def)
qed

section \<open>Merging\<close>

lemma merge_pdfs_three:
  assumes "fs A = Some (Pdf pa)" and "fs B = Some (Pdf pb)" and "fs C = Some (Pdf pc)"
    and "open_wb isdir output_path = None"
  shows "merge_pdfs isdir fs [A, B, C] output_path = Inr (fs(output_path \<mapsto> Pdf (pa @ pb @ pc)))"
  using assms by (simp add: merge_pdfs_def PdfReader_def)

text \<open>
  C5. Each session has its own merge set. When \<open>A\<close>, \<open>B\<close>, \<open>C\<close> are recorded in that order
  into the empty set of a session, and another session records \<open>X\<close> in between, the
  session's finalize enqueues exactly one job, the merge over \<open>[A, B, C]\<close>, and leaves the
  session's set empty; \<open>X\<close> is in the other session's set, and stays there. The job's payload,
  \<^verbatim>\<open>merge_pdfs\<close> of the source, writes the pages of \<open>A\<close>, then of \<open>B\<close>, then of \<open>C\<close> to the
  output, when the three are PDFs and the output can be opened for writing.
\<close>

theorem merge_set_session_scoped:
  assumes "sets (from_user_id upd) = []"
    and "from_user_id upd_a = from_user_id upd" and "from_user_id upd_b = from_user_id upd"
    and "from_user_id upd_c = from_user_id upd"
    and "from_user_id other \<noteq> from_user_id upd"
    and "files w A = Some (Pdf pa)" and "files w B = Some (Pdf pb)"
    and "files w C = Some (Pdf pc)"
    and "open_wb isdir output_path = None"
  shows "job_queue (snd (merge_finalize upd output_path
             (merge_record upd_c C (merge_record other X
                (merge_record upd_b B (merge_record upd_a A (sets, s)))))))
           = job_queue s @ [MergeTask upd [A, B, C] output_path]
       \<and> fst (merge_finalize upd output_path
             (merge_record upd_c C (merge_record other X
                (merge_record upd_b B (merge_record upd_a A (sets, s))))))
           (from_user_id upd) = []
       \<and> fst (merge_finalize upd output_path
             (merge_record upd_c C (merge_record other X
                (merge_record upd_b B (merge_record upd_a A (sets, s))))))
           (from_user_id other) = sets (from_user_id other) @ [X]
       \<and> run_job sends isdir redact (MergeTask upd [A, B, C] output_path) w
           = (Returned, w\<lparr>files := (files w)(output_path \<mapsto> Pdf (pa @ pb @ pc))\<rparr>)"
proof -
  let ?final = "merge_finalize upd output_path
      (merge_record upd_c C (merge_record other X
         (merge_record upd_b B (merge_record upd_a A (sets, s)))))"
  have q: "job_queue (snd ?final) = job_queue s @ [MergeTask upd [A, B, C] output_path]"
    using assms(1-5) by (simp add: merge_finalize_def merge_record_def enqueue_def)
  have e: "fst ?final (from_user_id upd) = []"
    by (simp add: merge_finalize_def merge_record_def split: prod.split)
  have o: "fst ?final (from_user_id other) = sets (from_user_id other) @ [X]"
    using assms(2-5) by (simp add: merge_finalize_def merge_record_def)
  have r: "run_job sends isdir redact (MergeTask upd [A, B, C] output_path) w
      = (Returned, w\<lparr>files := (files w)(output_path \<mapsto> Pdf (pa @ pb @ pc))\<rparr>)"
    using merge_pdfs_three [OF assms(6-9)] by (simp add: run_job_def merge_task_def)
  show ?thesis
    using q e o r by (intro conjI)
qed

lemma demo_merge_simps:
  "files demo_merge_world ''A.pdf'' = Some (Pdf [1, 2])"
  "files demo_merge_world ''B.pdf'' = Some (Pdf [3])"
  "files demo_merge_world ''C.pdf'' = Some (Pdf [4, 5])"
  "from_user_id (user uid) = uid"
  "no_sets uid = []"
  by (simp_all add: demo_merge_world_def demo_merge_fs_def user_def no_sets_def)

lemma out_pdf_opens: "open_wb no_folder ''out.pdf'' = None"
  by code_simp

theorem merge_set_session_scoped_witness:
  "no_sets (from_user_id (user 1)) = []
   \<and> from_user_id (user 2) \<noteq> from_user_id (user 1)
   \<and> open_wb no_folder ''out.pdf'' = None
   \<and> job_queue (snd (merge_finalize (user 1) ''out.pdf''
        (merge_record (user 1) ''C.pdf'' (merge_record (user 2) ''X.pdf''
           (merge_record (user 1) ''B.pdf'' (merge_record (user 1) ''A.pdf'' (no_sets, demo_bot)))))))
       = [MergeTask (user 1) [''A.pdf'', ''B.pdf'', ''C.pdf''] ''out.pdf'']
   \<and> fst (merge_finalize (user 1) ''out.pdf''
        (merge_record (user 1) ''C.pdf'' (merge_record (user 2) ''X.pdf''
           (merge_record (user 1) ''B.pdf'' (merge_record (user 1) ''A.pdf'' (no_sets, demo_bot)))))) 1
       = []
   \<and> fst (merge_finalize (user 1) ''out.pdf''
        (merge_record (user 1) ''C.pdf'' (merge_record (user 2) ''X.pdf''
           (merge_record (user 1) ''B.pdf'' (merge_record (user 1) ''A.pdf'' (no_sets, demo_bot)))))) 2
       = [''X.pdf'']
   \<and> files (snd (run_job all_sent no_folder whiten
        (MergeTask (user 1) [''A.pdf'', ''B.pdf'', ''C.pdf''] ''out.pdf'') demo_merge_world)) ''out.pdf''
       = Some (Pdf [1, 2, 3, 4, 5])"
proof -
  have ne: "from_user_id (user 2) \<noteq> from_user_id (user 1)"
    by (simp add: demo_merge_simps)
  note t = merge_set_session_scoped [where upd = "user 1" and upd_a = "user 1"
      and upd_b = "user 1" and upd_c = "user 1" and other = "user 2" and sets = no_sets
      and s = demo_bot and w = demo_merge_world and A = "''A.pdf''" and B = "''B.pdf''"
      and C = "''C.pdf''" and X = "''X.pdf''" and pa = "[1, 2]" and pb = "[3]"
      and pc = "[4, 5]" and isdir = no_folder and output_path = "''out.pdf''"
      and sends = all_sent and redact = whiten,
      OF demo_merge_simps(5) refl refl refl ne demo_merge_simps(1) demo_merge_simps(2)
         demo_merge_simps(3) out_pdf_opens]
  show ?thesis
    using t ne out_pdf_opens by (simp add: demo_merge_simps demo_bot_simps)
qed

end
